theory Spec2Isabelle
  imports Main "HOL-Library.Word" "HOL-Library.Multiset"
begin

section \<open>The Histogram interface\<close>

text \<open>
  \<^verbatim>\<open>mio.go\<close> declares \<^verbatim>\<open>Histogram\<close> as an interface only; its implementation is an
  external statistics library. Following section 3 of the specification, a histogram is
  represented by the observations made since the last \<^verbatim>\<open>Clear()\<close>: \<^verbatim>\<open>Update(v)\<close> adds one
  observation, \<^verbatim>\<open>Clear()\<close> resets to the empty state and \<^verbatim>\<open>Count()\<close> counts the
  observations since the last \<^verbatim>\<open>Clear()\<close>. Sample values are \<^verbatim>\<open>int64\<close>.
\<close>

type_synonym int64 = "64 word"

type_synonym histogram = "int64 list"

definition Clear :: "histogram \<Rightarrow> histogram" where
  "Clear h = []"

definition Update :: "int64 \<Rightarrow> histogram \<Rightarrow> histogram" where
  "Update v h = h @ [v]"

definition Count :: "histogram \<Rightarrow> int" where
  "Count h = int (length h)"

section \<open>Timers of the Go runtime\<close>

text \<open>
  \<^verbatim>\<open>time.AfterFunc(d, f)\<close> makes a new one-shot timer that, once \<^verbatim>\<open>d\<close> has elapsed, calls
  \<^verbatim>\<open>f\<close> in its own goroutine. \<^verbatim>\<open>t.Stop()\<close> prevents a pending timer from firing; on a
  timer that has already expired or been stopped it changes nothing, and it does not wait
  for a started \<^verbatim>\<open>f\<close>. A timer is therefore pending (with its deadline on the monotonic
  clock, in nanoseconds), stopped or fired; the goroutines started by fired timers and not
  yet run are counted separately.
\<close>

datatype timer = Pending int | Stopped | Fired

fun is_pending :: "timer \<Rightarrow> bool" where
  "is_pending (Pending w) = True"
| "is_pending Stopped = False"
| "is_pending Fired = False"

text \<open>
  The deadline computed by package \<^verbatim>\<open>time\<close>: a non-positive duration gives the current
  clock value; otherwise the sum, saturated at the largest \<^verbatim>\<open>int64\<close>.
\<close>

definition when_at :: "int64 \<Rightarrow> int \<Rightarrow> int" where
  "when_at d now =
     (if sint d \<le> 0 then now
      else if now + sint d > 2 ^ 63 - 1 then 2 ^ 63 - 1
      else now + sint d)"

section \<open>SelfCleaningHistogram\<close>

text \<open>
  The state of one \<^verbatim>\<open>SelfCleaningHistogram\<close> together with the part of the runtime it
  touches. \<^verbatim>\<open>cnt\<close>, \<^verbatim>\<open>timer_t\<close> (the variable \<^verbatim>\<open>t\<close>) and \<^verbatim>\<open>delay\<close> are the locals of
  \<^verbatim>\<open>decay\<close>; \<^verbatim>\<open>cnt\<close> is a Go \<^verbatim>\<open>int\<close>, 64 bits wide on 64-bit platforms, and wraps around.
  \<^verbatim>\<open>decaying\<close> says that the goroutine running \<^verbatim>\<open>decay\<close> is in its loop, \<^verbatim>\<open>ctx_done\<close> that
  \<^verbatim>\<open>h.ctx\<close> has been cancelled. \<^verbatim>\<open>timers\<close> holds every timer made by \<^verbatim>\<open>time.AfterFunc\<close>, a
  timer handle being its index; \<^verbatim>\<open>started\<close> counts the \<^verbatim>\<open>h.Clear\<close> goroutines started by
  fired timers that have not run yet; \<^verbatim>\<open>nanotime\<close> is the monotonic clock.
\<close>

record world =
  Histogram :: histogram
  cnt :: "64 word"
  timer_t :: "nat option"
  decaying :: bool
  ctx_done :: bool
  delay :: int64
  timers :: "timer list"
  started :: nat
  nanotime :: int

definition AfterFunc :: "int64 \<Rightarrow> world \<Rightarrow> nat \<times> world" where
  "AfterFunc d s =
     (length (timers s), s\<lparr>timers := timers s @ [Pending (when_at d (nanotime s))]\<rparr>)"

definition Stop :: "nat \<Rightarrow> world \<Rightarrow> world" where
  "Stop k s =
     (if k < length (timers s) \<and> is_pending (timers s ! k)
      then s\<lparr>timers := (timers s)[k := Stopped]\<rparr>
      else s)"

text \<open>
  \<^verbatim>\<open>NewSelfCleaningHistogram\<close>: the context is fresh, the goroutine is started and has
  closed \<^verbatim>\<open>guard\<close> before the constructor returns, \<^verbatim>\<open>t\<close> is nil and \<^verbatim>\<open>cnt\<close> is zero. The
  third argument is the value of the clock at construction.
\<close>

definition NewSelfCleaningHistogram :: "histogram \<Rightarrow> int64 \<Rightarrow> int \<Rightarrow> world" where
  "NewSelfCleaningHistogram histogram d clock =
     \<lparr>Histogram = histogram, cnt = 0, timer_t = None, decaying = True, ctx_done = False,
      delay = d, timers = [], started = 0, nanotime = clock\<rparr>"

text \<open>The branch \<^verbatim>\<open>case i := <-h.c\<close> of the loop of \<^verbatim>\<open>decay\<close>.\<close>

definition decay_recv :: "64 word \<Rightarrow> world \<Rightarrow> world" where
  "decay_recv i s =
     (let s1 = s\<lparr>cnt := cnt s + i\<rparr> in
      if cnt s1 = 0
      then (case AfterFunc (delay s1) s1 of (k, s2) \<Rightarrow> s2\<lparr>timer_t := Some k\<rparr>)
      else (case timer_t s1 of None \<Rightarrow> s1 | Some k \<Rightarrow> Stop k s1))"

text \<open>The branch \<^verbatim>\<open>case <-h.ctx.Done()\<close> of the loop of \<^verbatim>\<open>decay\<close>: stop \<^verbatim>\<open>t\<close>, return.\<close>

definition decay_ctx :: "world \<Rightarrow> world" where
  "decay_ctx s =
     (case timer_t s of None \<Rightarrow> s | Some k \<Rightarrow> Stop k s)\<lparr>decaying := False\<rparr>"

text \<open>
  \<^verbatim>\<open>Register\<close> and \<^verbatim>\<open>Done\<close> are a \<^verbatim>\<open>select\<close> over two cases. The send on the unbuffered
  channel \<^verbatim>\<open>h.c\<close> can be taken only while \<^verbatim>\<open>decay\<close> is in its loop to receive it, and then
  \<^verbatim>\<open>decay\<close> runs its receive branch; the receive from \<^verbatim>\<open>h.ctx.Done()\<close> can be taken only
  once the context is cancelled. The first argument names the case taken; the result is
  \<open>None\<close> when that case is not ready.
\<close>

datatype select_case = Send | CtxDone

definition Register :: "select_case \<Rightarrow> world \<Rightarrow> world option" where
  "Register c s =
     (case c of
        Send \<Rightarrow> if decaying s then Some (decay_recv 1 s) else None
      | CtxDone \<Rightarrow> if ctx_done s then Some s else None)"

definition Done :: "select_case \<Rightarrow> world \<Rightarrow> world option" where
  "Done c s =
     (case c of
        Send \<Rightarrow> if decaying s then Some (decay_recv (- 1) s) else None
      | CtxDone \<Rightarrow> if ctx_done s then Some s else None)"

definition Shutdown :: "world \<Rightarrow> world" where
  "Shutdown s = s\<lparr>ctx_done := True\<rparr>"

section \<open>Executions\<close>

text \<open>
  One step of the system: a call of a method by some goroutine, \<^verbatim>\<open>decay\<close> taking its
  cancellation branch, a pending timer whose deadline has passed expiring (which starts
  \<^verbatim>\<open>h.Clear\<close> in its own goroutine), a started \<^verbatim>\<open>h.Clear\<close> running, or time passing.
\<close>

datatype event =
    Call_Register select_case
  | Call_Done select_case
  | Call_Shutdown
  | Call_Update int64
  | Decay_ctx
  | Timer_expire nat
  | Run_Clear
  | Sleep nat

definition timer_expire :: "nat \<Rightarrow> world \<Rightarrow> world option" where
  "timer_expire k s =
     (if k < length (timers s)
      then (case timers s ! k of
              Pending w \<Rightarrow>
                if w \<le> nanotime s
                then Some (s\<lparr>timers := (timers s)[k := Fired], started := Suc (started s)\<rparr>)
                else None
            | Stopped \<Rightarrow> None
            | Fired \<Rightarrow> None)
      else None)"

definition run_Clear :: "world \<Rightarrow> world option" where
  "run_Clear s =
     (if 0 < started s
      then Some (s\<lparr>Histogram := Clear (Histogram s), started := started s - 1\<rparr>)
      else None)"

fun step :: "event \<Rightarrow> world \<Rightarrow> world option" where
  "step (Call_Register c) s = Register c s"
| "step (Call_Done c) s = Done c s"
| "step Call_Shutdown s = Some (Shutdown s)"
| "step (Call_Update v) s = Some (s\<lparr>Histogram := Update v (Histogram s)\<rparr>)"
| "step Decay_ctx s = (if decaying s \<and> ctx_done s then Some (decay_ctx s) else None)"
| "step (Timer_expire k) s = timer_expire k s"
| "step Run_Clear s = run_Clear s"
| "step (Sleep d) s = Some (s\<lparr>nanotime := nanotime s + int d\<rparr>)"

fun run :: "event list \<Rightarrow> world \<Rightarrow> world option" where
  "run [] s = Some s"
| "run (e # es) s = (case step e s of None \<Rightarrow> None | Some s' \<Rightarrow> run es s')"

inductive reachable :: "world \<Rightarrow> bool" where
  reach_init: "reachable (NewSelfCleaningHistogram histogram d clock)"
| reach_step: "reachable s \<Longrightarrow> step e s = Some s' \<Longrightarrow> reachable s'"

text \<open>The idle timer is armed when some timer made by \<^verbatim>\<open>decay\<close> is pending.\<close>

definition armed :: "world \<Rightarrow> bool" where
  "armed s = list_ex is_pending (timers s)"

text \<open>The invariant of \<^verbatim>\<open>decay\<close> that the claims about the timer rest on.\<close>

definition decay_inv :: "world \<Rightarrow> bool" where
  "decay_inv s \<longleftrightarrow>
     (\<not> decaying s \<longrightarrow> ctx_done s) \<and>
     (\<forall>k < length (timers s). is_pending (timers s ! k) \<longrightarrow>
        timer_t s = Some k \<and> cnt s = 0 \<and> decaying s) \<and>
     (\<forall>k. timer_t s = Some k \<longrightarrow> k < length (timers s)) \<and>
     (cnt s = 0 \<and> decaying s \<longrightarrow> (\<forall>k. timer_t s = Some k \<longrightarrow> timers s ! k \<noteq> Stopped))"

text \<open>
  The timer that \<^verbatim>\<open>t\<close> refers to has fired (it has expired and its \<^verbatim>\<open>h.Clear\<close> has been
  started).
\<close>

definition timer_fired :: "world \<Rightarrow> bool" where
  "timer_fired s = (case timer_t s of None \<Rightarrow> False | Some k \<Rightarrow> timers s ! k = Fired)"

section \<open>The scenario of \<^verbatim>\<open>TestSelfCleaningHistogram\<close>\<close>

text \<open>
  The test constructs a self-cleaning histogram with a delay of 150 ms (durations are in
  nanoseconds), registers twice, updates three times and calls \<^verbatim>\<open>Done\<close> twice; it then
  sleeps 300 ms, during which the timer expires and the clear runs; it registers again,
  updates once and sleeps another 300 ms.
\<close>

definition Count_after :: "event list \<Rightarrow> world \<Rightarrow> int option" where
  "Count_after es s = (case run es s of None \<Rightarrow> None | Some s' \<Rightarrow> Some (Count (Histogram s')))"

definition test_new :: world where
  "test_new = NewSelfCleaningHistogram [] 150000000 0"

definition test_activity :: "event list" where
  "test_activity =
     [Call_Register Send, Call_Register Send, Call_Update 150, Call_Update 100,
      Call_Update 50, Call_Done Send, Call_Done Send]"

definition test_idle :: "event list" where
  "test_idle = test_activity @ [Sleep 300000000, Timer_expire 0, Run_Clear]"

definition test_busy :: "event list" where
  "test_busy = test_idle @ [Call_Register Send, Call_Update 50, Sleep 300000000]"

section \<open>Counting accepted deltas\<close>

text \<open>
  A delta is accepted when the send case of \<^verbatim>\<open>Register\<close> or \<^verbatim>\<open>Done\<close> is taken.
  \<^verbatim>\<open>registers\<close> and \<^verbatim>\<open>dones\<close> count the accepted deltas of each kind in an execution;
  \<^verbatim>\<open>final_cnt\<close> reads the counter after an execution as a signed integer; \<^verbatim>\<open>updates\<close>
  collects the samples passed to \<^verbatim>\<open>Update\<close>.
\<close>

definition registers :: "event list \<Rightarrow> nat" where
  "registers es = count_list es (Call_Register Send)"

definition dones :: "event list \<Rightarrow> nat" where
  "dones es = count_list es (Call_Done Send)"

definition is_delta :: "event \<Rightarrow> bool" where
  "is_delta e \<longleftrightarrow> e = Call_Register Send \<or> e = Call_Done Send"

definition final_cnt :: "event list \<Rightarrow> world \<Rightarrow> int option" where
  "final_cnt es s = (case run es s of None \<Rightarrow> None | Some s' \<Rightarrow> Some (sint (cnt s')))"

fun updates :: "event list \<Rightarrow> int64 list" where
  "updates [] = []"
| "updates (Call_Update v # es) = v # updates es"
| "updates (e # es) = updates es"

section \<open>The metered stream decorator\<close>

text \<open>
  Modelled from the spec: the stream decorators (\<^verbatim>\<open>Writer\<close>, \<^verbatim>\<open>Reader\<close>) and their close
  operation are used by the tests but are not in \<^verbatim>\<open>mio.go\<close>. Following sections 3 and
  4.2 of the specification, a decorator holds the flag "closed", which guards the
  teardown; \<^verbatim>\<open>registration\<close> says that a \<^verbatim>\<open>Register\<close> made on the bound Registrar is
  outstanding; \<^verbatim>\<open>endpoint_result\<close> is what closing the underlying endpoint returns and
  \<^verbatim>\<open>endpoint_closes\<close> counts how often the underlying resources were released.
\<close>

datatype error = EndpointError

record decorator =
  is_closed :: bool
  registration :: bool
  endpoint_result :: "error option"
  endpoint_closes :: nat

text \<open>
  Modelled from the spec: only the first invocation of the close operation releases the
  underlying resources and issues the compensating \<^verbatim>\<open>Done()\<close> if a registration is
  outstanding; later invocations are no-ops that return no error. The Registrar is the
  self-cleaning histogram, so the \<^verbatim>\<open>Done()\<close> is the \<^verbatim>\<open>select\<close> of \<^verbatim>\<open>Done\<close> above.
\<close>

definition Close ::
  "select_case \<Rightarrow> decorator \<times> world \<Rightarrow> ((decorator \<times> world) \<times> error option) option" where
  "Close c ms =
     (case ms of (m, s) \<Rightarrow>
        if is_closed m then Some ((m, s), None)
        else if registration m
        then (case Done c s of
                None \<Rightarrow> None
              | Some s' \<Rightarrow>
                  Some ((m\<lparr>is_closed := True, registration := False,
                           endpoint_closes := Suc (endpoint_closes m)\<rparr>, s'),
                        endpoint_result m))
        else Some ((m\<lparr>is_closed := True, endpoint_closes := Suc (endpoint_closes m)\<rparr>, s),
                   endpoint_result m))"

section \<open>The invariant\<close>

lemma Stop_fields [simp]:
  "cnt (Stop k s) = cnt s" "timer_t (Stop k s) = timer_t s"
  "decaying (Stop k s) = decaying s" "ctx_done (Stop k s) = ctx_done s"
  "delay (Stop k s) = delay s" "Histogram (Stop k s) = Histogram s"
  "started (Stop k s) = started s" "nanotime (Stop k s) = nanotime s"
  "length (timers (Stop k s)) = length (timers s)"
  by (simp_all add: Stop_def)

lemma pending_Stop:
  "j < length (timers s) \<Longrightarrow>
   is_pending (timers (Stop k s) ! j) \<longleftrightarrow> j \<noteq> k \<and> is_pending (timers s ! j)"
  by (simp add: Stop_def nth_list_update)

lemma Stop_cnt_update: "Stop k (s\<lparr>cnt := c\<rparr>) = (Stop k s)\<lparr>cnt := c\<rparr>"
  by (simp add: Stop_def)

lemma not_pending_iff: "\<not> is_pending x \<longleftrightarrow> x = Stopped \<or> x = Fired"
  by (cases x) simp_all

lemma armed_iff: "armed s \<longleftrightarrow> (\<exists>k < length (timers s). is_pending (timers s ! k))"
  unfolding armed_def list_ex_iff by (metis in_set_conv_nth)

lemma decay_recv_zero:
  "cnt s + i = 0 \<Longrightarrow>
   decay_recv i s =
     s\<lparr>cnt := 0, timers := timers s @ [Pending (when_at (delay s) (nanotime s))],
       timer_t := Some (length (timers s))\<rparr>"
  unfolding decay_recv_def AfterFunc_def Let_def by simp

lemma decay_recv_nonzero:
  "cnt s + i \<noteq> 0 \<Longrightarrow>
   decay_recv i s =
     (case timer_t s of None \<Rightarrow> s\<lparr>cnt := cnt s + i\<rparr>
      | Some k \<Rightarrow> Stop k (s\<lparr>cnt := cnt s + i\<rparr>))"
  unfolding decay_recv_def Let_def by simp

lemma decay_inv_init: "decay_inv (NewSelfCleaningHistogram histogram d clock)"
  by (simp add: decay_inv_def NewSelfCleaningHistogram_def)

lemma decay_invI:
  assumes "\<not> decaying s \<Longrightarrow> ctx_done s"
    and "\<And>k. k < length (timers s) \<Longrightarrow> is_pending (timers s ! k) \<Longrightarrow>
           timer_t s = Some k \<and> cnt s = 0 \<and> decaying s"
    and "\<And>k. timer_t s = Some k \<Longrightarrow> k < length (timers s)"
    and "\<And>k. cnt s = 0 \<Longrightarrow> decaying s \<Longrightarrow> timer_t s = Some k \<Longrightarrow> timers s ! k \<noteq> Stopped"
  shows "decay_inv s"
  unfolding decay_inv_def using assms by blast

lemma decay_inv_ctxD: "decay_inv s \<Longrightarrow> \<not> decaying s \<Longrightarrow> ctx_done s"
  unfolding decay_inv_def by blast

lemma decay_inv_pendingD:
  "decay_inv s \<Longrightarrow> k < length (timers s) \<Longrightarrow> is_pending (timers s ! k) \<Longrightarrow>
   timer_t s = Some k \<and> cnt s = 0 \<and> decaying s"
  unfolding decay_inv_def by blast

lemma decay_inv_handleD: "decay_inv s \<Longrightarrow> timer_t s = Some k \<Longrightarrow> k < length (timers s)"
  unfolding decay_inv_def by blast

lemma decay_inv_liveD:
  "decay_inv s \<Longrightarrow> cnt s = 0 \<Longrightarrow> decaying s \<Longrightarrow> timer_t s = Some k \<Longrightarrow>
   timers s ! k \<noteq> Stopped"
  unfolding decay_inv_def by blast

lemma decay_inv_Stop_handle:
  assumes "decay_inv s" and "timer_t s = Some k" and "j < length (timers s)"
  shows "\<not> is_pending (timers (Stop k s) ! j)"
  using decay_inv_pendingD [OF assms(1,3)] assms(2,3) by (auto simp: pending_Stop)

lemma decay_inv_None:
  assumes "decay_inv s" and "timer_t s = None" and "j < length (timers s)"
  shows "\<not> is_pending (timers s ! j)"
  using decay_inv_pendingD [OF assms(1,3)] assms(2) by auto

lemma decay_inv_idle:
  assumes "\<not> decaying s \<Longrightarrow> ctx_done s"
    and "\<And>k. timer_t s = Some k \<Longrightarrow> k < length (timers s)"
    and "\<And>j. j < length (timers s) \<Longrightarrow> \<not> is_pending (timers s ! j)"
    and "cnt s \<noteq> 0 \<or> \<not> decaying s"
  shows "decay_inv s"
  using assms by (intro decay_invI) blast+

lemma decay_inv_recv:
  assumes "decay_inv s" and "decaying s" and "i \<noteq> 0"
  shows "decay_inv (decay_recv i s)"
proof (cases "cnt s + i = 0")
  case True
  have nz: "cnt s \<noteq> 0"
  proof
    assume "cnt s = 0"
    with True have "i = 0" by simp
    with assms(3) show False by simp
  qed
  have np: "\<not> is_pending (timers s ! j)" if "j < length (timers s)" for j
    using decay_inv_pendingD [OF assms(1) that] nz by blast
  let ?s' = "s\<lparr>cnt := 0, timers := timers s @ [Pending (when_at (delay s) (nanotime s))],
       timer_t := Some (length (timers s))\<rparr>"
  have "decay_inv ?s'"
  proof (rule decay_invI)
    show "\<not> decaying ?s' \<Longrightarrow> ctx_done ?s'"
      using assms(2) by simp
    show "\<And>k. timer_t ?s' = Some k \<Longrightarrow> k < length (timers ?s')"
      by auto
    show "\<And>k. cnt ?s' = 0 \<Longrightarrow> decaying ?s' \<Longrightarrow> timer_t ?s' = Some k \<Longrightarrow>
             timers ?s' ! k \<noteq> Stopped"
      by (auto simp: nth_append)
    show "timer_t ?s' = Some k \<and> cnt ?s' = 0 \<and> decaying ?s'"
      if "k < length (timers ?s')" and "is_pending (timers ?s' ! k)" for k
    proof (cases "k < length (timers s)")
      case True
      with that(2) np [OF True] show ?thesis by (simp add: nth_append)
    next
      case False
      with that(1) have "k = length (timers s)" by simp
      with assms(2) show ?thesis by simp
    qed
  qed
  then show ?thesis by (simp only: decay_recv_zero [OF True])
next
  case False
  define c where "c = cnt s + i"
  from False have c: "c \<noteq> 0" by (simp add: c_def)
  have eq: "decay_recv i s =
     (case timer_t s of None \<Rightarrow> s\<lparr>cnt := c\<rparr> | Some k \<Rightarrow> Stop k (s\<lparr>cnt := c\<rparr>))"
    unfolding c_def by (rule decay_recv_nonzero [OF False])
  show ?thesis
  proof (cases "timer_t s")
    case None
    have "decay_inv (s\<lparr>cnt := c\<rparr>)"
    proof (rule decay_inv_idle)
      show "\<not> decaying (s\<lparr>cnt := c\<rparr>) \<Longrightarrow> ctx_done (s\<lparr>cnt := c\<rparr>)"
        using assms(2) by simp
      show "\<And>k. timer_t (s\<lparr>cnt := c\<rparr>) = Some k \<Longrightarrow> k < length (timers (s\<lparr>cnt := c\<rparr>))"
        using None by simp
      show "\<And>j. j < length (timers (s\<lparr>cnt := c\<rparr>)) \<Longrightarrow>
              \<not> is_pending (timers (s\<lparr>cnt := c\<rparr>) ! j)"
        using decay_inv_None [OF assms(1) None] by simp
      show "cnt (s\<lparr>cnt := c\<rparr>) \<noteq> 0 \<or> \<not> decaying (s\<lparr>cnt := c\<rparr>)"
        using c by simp
    qed
    with None show ?thesis by (simp only: eq option.case)
  next
    case (Some k)
    let ?s' = "(Stop k s)\<lparr>cnt := c\<rparr>"
    have "decay_inv ?s'"
    proof (rule decay_inv_idle)
      show "\<not> decaying ?s' \<Longrightarrow> ctx_done ?s'"
        using assms(2) by simp
      show "\<And>j. timer_t ?s' = Some j \<Longrightarrow> j < length (timers ?s')"
        using decay_inv_handleD [OF assms(1)] by simp
      show "\<And>j. j < length (timers ?s') \<Longrightarrow> \<not> is_pending (timers ?s' ! j)"
        using decay_inv_Stop_handle [OF assms(1) Some] by simp
      show "cnt ?s' \<noteq> 0 \<or> \<not> decaying ?s'"
        using c by simp
    qed
    with Some show ?thesis by (simp only: eq option.case Stop_cnt_update)
  qed
qed

lemma decay_inv_ctx:
  assumes "decay_inv s" and "ctx_done s"
  shows "decay_inv (decay_ctx s)"
proof (cases "timer_t s")
  case None
  let ?s' = "s\<lparr>decaying := False\<rparr>"
  have "decay_inv ?s'"
  proof (rule decay_inv_idle)
    show "\<not> decaying ?s' \<Longrightarrow> ctx_done ?s'"
      using assms(2) by simp
    show "\<And>k. timer_t ?s' = Some k \<Longrightarrow> k < length (timers ?s')"
      using None by simp
    show "\<And>j. j < length (timers ?s') \<Longrightarrow> \<not> is_pending (timers ?s' ! j)"
      using decay_inv_None [OF assms(1) None] by simp
    show "cnt ?s' \<noteq> 0 \<or> \<not> decaying ?s'"
      by simp
  qed
  with None show ?thesis by (simp add: decay_ctx_def)
next
  case (Some k)
  let ?s' = "(Stop k s)\<lparr>decaying := False\<rparr>"
  have "decay_inv ?s'"
  proof (rule decay_inv_idle)
    show "\<not> decaying ?s' \<Longrightarrow> ctx_done ?s'"
      using assms(2) by simp
    show "\<And>j. timer_t ?s' = Some j \<Longrightarrow> j < length (timers ?s')"
      using decay_inv_handleD [OF assms(1)] by simp
    show "\<And>j. j < length (timers ?s') \<Longrightarrow> \<not> is_pending (timers ?s' ! j)"
      using decay_inv_Stop_handle [OF assms(1) Some] by simp
    show "cnt ?s' \<noteq> 0 \<or> \<not> decaying ?s'"
      by simp
  qed
  with Some show ?thesis by (simp add: decay_ctx_def)
qed

lemma decay_inv_frame:
  assumes "decay_inv s"
    and "cnt s' = cnt s" and "timer_t s' = timer_t s" and "decaying s' = decaying s"
    and "timers s' = timers s" and "ctx_done s \<Longrightarrow> ctx_done s'"
  shows "decay_inv s'"
  using assms unfolding decay_inv_def by metis

lemma timer_expire_Some:
  "timer_expire k s = Some s' \<longleftrightarrow>
     k < length (timers s) \<and> (\<exists>w. timers s ! k = Pending w \<and> w \<le> nanotime s) \<and>
     s' = s\<lparr>timers := (timers s)[k := Fired], started := Suc (started s)\<rparr>"
  by (auto simp: timer_expire_def split: timer.splits)

lemma decay_inv_expire:
  assumes "decay_inv s" and "timer_expire k s = Some s'"
  shows "decay_inv s'"
proof -
  let ?s' = "s\<lparr>timers := (timers s)[k := Fired], started := Suc (started s)\<rparr>"
  from assms(2) have k: "k < length (timers s)" and s': "s' = ?s'"
    by (simp_all add: timer_expire_Some)
  have "decay_inv ?s'"
  proof (rule decay_invI)
    show "\<not> decaying ?s' \<Longrightarrow> ctx_done ?s'"
      using decay_inv_ctxD [OF assms(1)] by simp
    show "\<And>j. timer_t ?s' = Some j \<Longrightarrow> j < length (timers ?s')"
      using decay_inv_handleD [OF assms(1)] by simp
    show "timer_t ?s' = Some j \<and> cnt ?s' = 0 \<and> decaying ?s'"
      if "j < length (timers ?s')" and "is_pending (timers ?s' ! j)" for j
    proof -
      from that k have "j < length (timers s)" "is_pending (timers s ! j)"
        by (auto simp: nth_list_update split: if_splits)
      from decay_inv_pendingD [OF assms(1) this] show ?thesis by simp
    qed
    show "timers ?s' ! j \<noteq> Stopped"
      if "cnt ?s' = 0" and "decaying ?s'" and "timer_t ?s' = Some j" for j
    proof -
      from that have *: "cnt s = 0" "decaying s" "timer_t s = Some j" by simp_all
      from decay_inv_liveD [OF assms(1) *] decay_inv_handleD [OF assms(1) *(3)] k
      show ?thesis by (auto simp: nth_list_update)
    qed
  qed
  with s' show ?thesis by simp
qed

lemma decay_inv_step:
  assumes "decay_inv s" and "step e s = Some s'"
  shows "decay_inv s'"
proof (cases e)
  case (Call_Register c)
  with assms show ?thesis
    by (cases c) (auto simp: Register_def decay_inv_recv split: if_splits)
next
  case (Call_Done c)
  with assms show ?thesis
    by (cases c) (auto simp: Done_def decay_inv_recv split: if_splits)
next
  case Call_Shutdown
  with assms(2) have "s' = s\<lparr>ctx_done := True\<rparr>" by (simp add: Shutdown_def)
  then show ?thesis by (intro decay_inv_frame [OF assms(1)]) simp_all
next
  case (Call_Update v)
  with assms(2) have "s' = s\<lparr>Histogram := Update v (Histogram s)\<rparr>" by simp
  then show ?thesis by (intro decay_inv_frame [OF assms(1)]) simp_all
next
  case Decay_ctx
  with assms show ?thesis by (auto simp: decay_inv_ctx split: if_splits)
next
  case (Timer_expire k)
  with assms show ?thesis by (simp add: decay_inv_expire)
next
  case Run_Clear
  with assms(2) have "s' = s\<lparr>Histogram := Clear (Histogram s), started := started s - 1\<rparr>"
    by (simp add: run_Clear_def split: if_splits)
  then show ?thesis by (intro decay_inv_frame [OF assms(1)]) simp_all
next
  case (Sleep d)
  with assms(2) have "s' = s\<lparr>nanotime := nanotime s + int d\<rparr>" by simp
  then show ?thesis by (intro decay_inv_frame [OF assms(1)]) simp_all
qed

lemma reachable_decay_inv: "reachable s \<Longrightarrow> decay_inv s"
  by (induction rule: reachable.induct) (auto intro: decay_inv_init decay_inv_step)

lemma reachable_run: "reachable s \<Longrightarrow> run es s = Some s' \<Longrightarrow> reachable s'"
  by (induction es arbitrary: s) (auto split: option.splits intro: reach_step)

section \<open>Effects of the single steps\<close>

lemma decay_recv_frame:
  "delay (decay_recv i s) = delay s \<and> decaying (decay_recv i s) = decaying s \<and>
   ctx_done (decay_recv i s) = ctx_done s \<and> Histogram (decay_recv i s) = Histogram s \<and>
   started (decay_recv i s) = started s \<and> nanotime (decay_recv i s) = nanotime s \<and>
   cnt (decay_recv i s) = cnt s + i"
proof (cases "cnt s + i = 0")
  case True
  show ?thesis by (simp only: decay_recv_zero [OF True]) (simp add: True)
next
  case False
  show ?thesis
    by (simp only: decay_recv_nonzero [OF False]) (simp split: option.splits)
qed

lemma Register_Send: "Register Send s = Some s' \<longleftrightarrow> decaying s \<and> s' = decay_recv 1 s"
  by (auto simp: Register_def)

lemma Done_Send: "Done Send s = Some s' \<longleftrightarrow> decaying s \<and> s' = decay_recv (- 1) s"
  by (auto simp: Done_def)

lemma Register_CtxDone: "Register CtxDone s = Some s' \<longleftrightarrow> ctx_done s \<and> s' = s"
  by (auto simp: Register_def)

lemma Done_CtxDone: "Done CtxDone s = Some s' \<longleftrightarrow> ctx_done s \<and> s' = s"
  by (auto simp: Done_def)

lemma run_Clear_Some:
  "run_Clear s = Some s' \<longleftrightarrow>
     0 < started s \<and> s' = s\<lparr>Histogram := Clear (Histogram s), started := started s - 1\<rparr>"
  by (auto simp: run_Clear_def)

lemma decay_ctx_frame:
  "delay (decay_ctx s) = delay s \<and> \<not> decaying (decay_ctx s) \<and>
   ctx_done (decay_ctx s) = ctx_done s \<and> Histogram (decay_ctx s) = Histogram s \<and>
   started (decay_ctx s) = started s \<and> nanotime (decay_ctx s) = nanotime s \<and>
   cnt (decay_ctx s) = cnt s \<and> timer_t (decay_ctx s) = timer_t s"
  by (simp add: decay_ctx_def split: option.splits)

lemma step_frame:
  assumes "step e s = Some s'"
  shows "delay s' = delay s" and "ctx_done s \<Longrightarrow> ctx_done s'"
    and "\<not> decaying s \<Longrightarrow> \<not> decaying s'"
proof -
  have "delay s' = delay s \<and> (ctx_done s \<longrightarrow> ctx_done s') \<and> (\<not> decaying s \<longrightarrow> \<not> decaying s')"
  proof (cases e)
    case (Call_Register c)
    with assms show ?thesis
      by (cases c) (auto simp: Register_Send Register_CtxDone decay_recv_frame)
  next
    case (Call_Done c)
    with assms show ?thesis
      by (cases c) (auto simp: Done_Send Done_CtxDone decay_recv_frame)
  next
    case Call_Shutdown
    with assms show ?thesis by (auto simp: Shutdown_def)
  next
    case (Call_Update v)
    with assms show ?thesis by auto
  next
    case Decay_ctx
    with assms show ?thesis by (auto simp: decay_ctx_frame split: if_splits)
  next
    case (Timer_expire k)
    with assms show ?thesis by (auto simp: timer_expire_Some)
  next
    case Run_Clear
    with assms show ?thesis by (auto simp: run_Clear_Some)
  next
    case (Sleep d)
    with assms show ?thesis by auto
  qed
  then show "delay s' = delay s" and "ctx_done s \<Longrightarrow> ctx_done s'"
    and "\<not> decaying s \<Longrightarrow> \<not> decaying s'" by blast+
qed

lemma run_frame:
  assumes "run es s = Some s'"
  shows "delay s' = delay s" and "ctx_done s \<Longrightarrow> ctx_done s'"
    and "\<not> decaying s \<Longrightarrow> \<not> decaying s'"
proof -
  have "delay s' = delay s \<and> (ctx_done s \<longrightarrow> ctx_done s') \<and> (\<not> decaying s \<longrightarrow> \<not> decaying s')"
    using assms
  proof (induction es arbitrary: s)
    case Nil
    then show ?case by simp
  next
    case (Cons e es)
    then obtain s1 where s1: "step e s = Some s1" "run es s1 = Some s'"
      by (auto split: option.splits)
    from Cons.IH [OF s1(2)] step_frame [OF s1(1)] show ?case by metis
  qed
  then show "delay s' = delay s" and "ctx_done s \<Longrightarrow> ctx_done s'"
    and "\<not> decaying s \<Longrightarrow> \<not> decaying s'" by blast+
qed

lemma not_armed_append:
  "\<not> armed s \<Longrightarrow> timers s' = timers s @ [x] \<Longrightarrow> armed s' \<longleftrightarrow> is_pending x"
  by (simp add: armed_def)

lemma not_armed_recv_nonzero:
  assumes "decay_inv s" and "decaying s" and "i \<noteq> 0" and "cnt s + i \<noteq> 0"
  shows "\<not> armed (decay_recv i s)"
proof
  assume "armed (decay_recv i s)"
  then obtain k where k: "k < length (timers (decay_recv i s))"
      "is_pending (timers (decay_recv i s) ! k)"
    by (auto simp: armed_iff)
  from decay_inv_pendingD [OF decay_inv_recv [OF assms(1-3)] k]
  have "cnt (decay_recv i s) = 0" by simp
  with assms(4) show False by (simp add: decay_recv_frame)
qed

lemma Stopped_recv_nonzero:
  assumes "cnt s + i \<noteq> 0" and "timer_t s = Some k" and "k < length (timers s)"
    and "is_pending (timers s ! k)"
  shows "timers (decay_recv i s) ! k = Stopped"
  using assms(2-4) by (simp only: decay_recv_nonzero [OF assms(1)]) (simp add: Stop_def)

lemma fire_after_zero:
  assumes "cnt s + i = 0" and "when_at (delay s) (nanotime s) \<le> nanotime s + int n"
  shows "\<exists>s''. run [Sleep n, Timer_expire (length (timers s)), Run_Clear] (decay_recv i s)
            = Some s'' \<and> Histogram s'' = []"
  using assms(2)
  by (simp only: decay_recv_zero [OF assms(1)])
     (simp add: timer_expire_def run_Clear_def Clear_def)

lemma no_fire_before:
  assumes "cnt s + i = 0" and "nanotime s + int n < when_at (delay s) (nanotime s)"
  shows "run [Sleep n, Timer_expire (length (timers s))] (decay_recv i s) = None"
  using assms(2)
  by (simp only: decay_recv_zero [OF assms(1)]) (simp add: timer_expire_def)

section \<open>Claims\<close>

lemma run_Register_Done:
  "run [Call_Register Send, Call_Done Send] (NewSelfCleaningHistogram [] 150000000 0) =
   Some \<lparr>Histogram = [], cnt = 0, timer_t = Some 0, decaying = True, ctx_done = False,
         delay = 150000000, timers = [Pending 150000000], started = 0, nanotime = 0\<rparr>"
  by (simp add: NewSelfCleaningHistogram_def Register_def Done_def decay_recv_def
      AfterFunc_def Stop_def when_at_def Let_def)

subsection \<open>C1: when the idle timer is armed\<close>

text \<open>
  C1 as stated fails: right after \<^verbatim>\<open>NewSelfCleaningHistogram\<close> returns the counter is zero and
  the coordinator is neither cancelled nor stopped, yet no timer is armed, since \<^verbatim>\<open>decay\<close>
  starts with \<^verbatim>\<open>t\<close> nil and makes a timer only when it receives a delta.
\<close>

theorem C1_initial_state_not_armed:
  "reachable (NewSelfCleaningHistogram [] 150000000 0) \<and>
   cnt (NewSelfCleaningHistogram [] 150000000 0) = 0 \<and>
   decaying (NewSelfCleaningHistogram [] 150000000 0) \<and>
   \<not> ctx_done (NewSelfCleaningHistogram [] 150000000 0) \<and>
   \<not> armed (NewSelfCleaningHistogram [] 150000000 0)"
  by (simp add: reach_init) (simp add: NewSelfCleaningHistogram_def armed_def)

text \<open>
  C1, amended: in every reachable state the idle timer is armed if and only if the
  counter is exactly zero, the coordinator has not stopped, a delta has been accepted
  before (\<^verbatim>\<open>t\<close> is not nil) and the timer made when the counter last reached zero has not
  fired yet.
\<close>

theorem C1_armed_iff:
  assumes "reachable s"
  shows "armed s \<longleftrightarrow> cnt s = 0 \<and> decaying s \<and> timer_t s \<noteq> None \<and> \<not> timer_fired s"
proof -
  from assms have inv: "decay_inv s" by (rule reachable_decay_inv)
  show ?thesis
  proof
    assume "armed s"
    then obtain k where k: "k < length (timers s)" "is_pending (timers s ! k)"
      by (auto simp: armed_iff)
    from decay_inv_pendingD [OF inv k] k(2)
    show "cnt s = 0 \<and> decaying s \<and> timer_t s \<noteq> None \<and> \<not> timer_fired s"
      by (auto simp: timer_fired_def)
  next
    assume r: "cnt s = 0 \<and> decaying s \<and> timer_t s \<noteq> None \<and> \<not> timer_fired s"
    then obtain k where k: "timer_t s = Some k" by auto
    from r k have "timers s ! k \<noteq> Fired" by (simp add: timer_fired_def)
    moreover from r k have "timers s ! k \<noteq> Stopped"
      by (intro decay_inv_liveD [OF inv]) simp_all
    ultimately have "is_pending (timers s ! k)" using not_pending_iff by blast
    with decay_inv_handleD [OF inv k] show "armed s"
      by (auto simp: armed_iff)
  qed
qed

theorem C1_armed_iff_witness:
  "armed \<lparr>Histogram = [], cnt = 0, timer_t = Some 0, decaying = True, ctx_done = False,
          delay = 150000000, timers = [Pending 150000000], started = 0, nanotime = 0\<rparr>"
proof -
  have "reachable \<lparr>Histogram = [], cnt = 0, timer_t = Some 0, decaying = True,
          ctx_done = False, delay = 150000000, timers = [Pending 150000000], started = 0,
          nanotime = 0\<rparr>"
    by (rule reachable_run [OF reach_init run_Register_Done])
  from C1_armed_iff [OF this] show ?thesis
    by (simp add: timer_fired_def)
qed

subsection \<open>C2: what an accepted delta does\<close>

lemma run_Register:
  "run [Call_Register Send] (NewSelfCleaningHistogram [] 150000000 0) =
   Some \<lparr>Histogram = [], cnt = 1, timer_t = None, decaying = True, ctx_done = False,
         delay = 150000000, timers = [], started = 0, nanotime = 0\<rparr>"
  by (simp add: NewSelfCleaningHistogram_def Register_def decay_recv_def Let_def)

text \<open>
  C2: for every accepted delta (\<open>+1\<close> from \<^verbatim>\<open>Register\<close>, \<open>-1\<close> from \<^verbatim>\<open>Done\<close>) \<^verbatim>\<open>decay\<close> adds the
  delta to its counter. If the result is exactly zero it makes a one-shot timer for the
  configured delay: the timer cannot expire before its deadline, and once the deadline has
  passed it expires and its action clears the histogram. If the result is not zero, every
  timer that was pending is stopped.
\<close>

theorem C2_accepted_delta:
  assumes "run es (NewSelfCleaningHistogram histogram d clock) = Some s"
    and "decaying s" and "i = 1 \<or> i = - 1"
  shows "(i = 1 \<longrightarrow> Register Send s = Some (decay_recv i s)) \<and>
         (i = - 1 \<longrightarrow> Done Send s = Some (decay_recv i s)) \<and>
         cnt (decay_recv i s) = cnt s + i \<and>
         (cnt s + i = 0 \<longrightarrow>
            timer_t (decay_recv i s) = Some (length (timers s)) \<and>
            timers (decay_recv i s) = timers s @ [Pending (when_at d (nanotime s))] \<and>
            (0 < sint d \<and> nanotime s + sint d < 2 ^ 63 \<longrightarrow>
               when_at d (nanotime s) = nanotime s + sint d) \<and>
            (\<forall>n. nanotime s + int n < when_at d (nanotime s) \<longrightarrow>
               run [Sleep n, Timer_expire (length (timers s))] (decay_recv i s) = None) \<and>
            (\<forall>n. when_at d (nanotime s) \<le> nanotime s + int n \<longrightarrow>
               (\<exists>s''. run [Sleep n, Timer_expire (length (timers s)), Run_Clear]
                        (decay_recv i s) = Some s'' \<and> Histogram s'' = []))) \<and>
         (cnt s + i \<noteq> 0 \<longrightarrow>
            (\<forall>k < length (timers s). is_pending (timers s ! k) \<longrightarrow>
               timers (decay_recv i s) ! k = Stopped) \<and>
            \<not> armed (decay_recv i s))"
proof -
  have reach: "reachable s"
    by (rule reachable_run [OF reach_init assms(1)])
  then have inv: "decay_inv s" by (rule reachable_decay_inv)
  have d: "delay s = d"
    using run_frame(1) [OF assms(1)] by (simp add: NewSelfCleaningHistogram_def)
  from assms(3) have i: "i \<noteq> 0" by auto
  have 1: "i = 1 \<longrightarrow> Register Send s = Some (decay_recv i s)"
    using assms(2) by (simp add: Register_def)
  have 2: "i = - 1 \<longrightarrow> Done Send s = Some (decay_recv i s)"
    using assms(2) by (simp add: Done_def)
  have 3: "cnt (decay_recv i s) = cnt s + i"
    by (simp add: decay_recv_frame)
  have 4: "timer_t (decay_recv i s) = Some (length (timers s)) \<and>
      timers (decay_recv i s) = timers s @ [Pending (when_at d (nanotime s))]"
    if z: "cnt s + i = 0"
    by (simp only: decay_recv_zero [OF z]) (simp add: d)
  have 5: "0 < sint d \<and> nanotime s + sint d < 2 ^ 63 \<longrightarrow>
      when_at d (nanotime s) = nanotime s + sint d"
    by (simp add: when_at_def)
  have 6: "run [Sleep n, Timer_expire (length (timers s))] (decay_recv i s) = None"
    if "cnt s + i = 0" and "nanotime s + int n < when_at d (nanotime s)" for n
    using no_fire_before [OF that(1)] that(2) d by simp
  have 7: "\<exists>s''. run [Sleep n, Timer_expire (length (timers s)), Run_Clear]
                        (decay_recv i s) = Some s'' \<and> Histogram s'' = []"
    if "cnt s + i = 0" and "when_at d (nanotime s) \<le> nanotime s + int n" for n
    using fire_after_zero [OF that(1)] that(2) d by simp
  have 8: "timers (decay_recv i s) ! k = Stopped"
    if nz: "cnt s + i \<noteq> 0" and k: "k < length (timers s)" "is_pending (timers s ! k)" for k
    using Stopped_recv_nonzero [OF nz _ k] decay_inv_pendingD [OF inv k] by simp
  have 9: "\<not> armed (decay_recv i s)" if "cnt s + i \<noteq> 0"
    by (rule not_armed_recv_nonzero [OF inv assms(2) i that])
  from 1 2 3 4 5 6 7 8 9 show ?thesis by blast
qed

theorem C2_accepted_delta_witness:
  "Done Send \<lparr>Histogram = [], cnt = 1, timer_t = None, decaying = True, ctx_done = False,
         delay = 150000000, timers = [], started = 0, nanotime = 0\<rparr> =
   Some (decay_recv (- 1) \<lparr>Histogram = [], cnt = 1, timer_t = None, decaying = True,
         ctx_done = False, delay = 150000000, timers = [], started = 0, nanotime = 0\<rparr>) \<and>
   timers (decay_recv (- 1) \<lparr>Histogram = [], cnt = 1, timer_t = None, decaying = True,
         ctx_done = False, delay = 150000000, timers = [], started = 0, nanotime = 0\<rparr>) =
   [Pending 150000000]"
  using C2_accepted_delta [OF run_Register, of "- 1"]
  by (simp add: when_at_def)

lemma run_append:
  "run (es @ es') s = (case run es s of None \<Rightarrow> None | Some s' \<Rightarrow> run es' s')"
  by (induction es arbitrary: s) (auto split: option.splits)

lemma Shutdown_idem: "ctx_done s \<Longrightarrow> Shutdown s = s"
  by (simp add: Shutdown_def)

subsection \<open>C3: Shutdown is idempotent, Register and Done after it are no-ops\<close>

text \<open>
  C3: \<^verbatim>\<open>Shutdown\<close> always returns, and a second call changes nothing, whether it comes at
  once or after any further steps of the system. From the first \<^verbatim>\<open>Shutdown\<close> on, every
  \<^verbatim>\<open>Register\<close> or \<^verbatim>\<open>Done\<close> call can return through \<^verbatim>\<open>h.ctx.Done()\<close>, which leaves the state
  unchanged, so no call blocks; and \<^verbatim>\<open>decay\<close>, as long as it is still in its loop, can take
  its cancellation branch and return, which it can never do before a \<^verbatim>\<open>Shutdown\<close>. Once
  it has done so \<^verbatim>\<open>Shutdown\<close> has taken effect: nobody receives on \<^verbatim>\<open>h.c\<close> any more, for
  good, so every \<^verbatim>\<open>Register\<close> and \<^verbatim>\<open>Done\<close> call returns through \<^verbatim>\<open>h.ctx.Done()\<close> and leaves
  the counter, the timers and the histogram as they are. (Between the call of \<^verbatim>\<open>Shutdown\<close>
  and that moment the \<^verbatim>\<open>select\<close> of \<^verbatim>\<open>Register\<close> or \<^verbatim>\<open>Done\<close> has both cases ready, and a
  delta may still be accepted.)
\<close>

theorem C3_shutdown_idempotent:
  assumes "reachable s"
  shows "step Call_Shutdown s = Some (Shutdown s) \<and>
         Shutdown (Shutdown s) = Shutdown s \<and>
         (\<not> ctx_done s \<longrightarrow>
            decaying s \<and> step Decay_ctx s = None \<and>
            Register CtxDone s = None \<and> Done CtxDone s = None) \<and>
         (\<forall>es s'. run es (Shutdown s) = Some s' \<longrightarrow>
            Shutdown s' = s' \<and>
            Register CtxDone s' = Some s' \<and> Done CtxDone s' = Some s' \<and>
            (decaying s' \<longrightarrow>
               step Decay_ctx s' = Some (decay_ctx s') \<and> \<not> decaying (decay_ctx s') \<and>
               Register Send s' = Some (decay_recv 1 s') \<and>
               Done Send s' = Some (decay_recv (- 1) s')) \<and>
            (\<not> decaying s' \<longrightarrow>
               Register Send s' = None \<and> Done Send s' = None \<and>
               (\<forall>c s''. Register c s' = Some s'' \<longrightarrow> s'' = s') \<and>
               (\<forall>c s''. Done c s' = Some s'' \<longrightarrow> s'' = s') \<and>
               (\<forall>es2 s2. run es2 s' = Some s2 \<longrightarrow> \<not> decaying s2)))"
proof (intro conjI allI impI)
  show "step Call_Shutdown s = Some (Shutdown s)"
    by simp
  show "Shutdown (Shutdown s) = Shutdown s"
    by (simp add: Shutdown_def)
next
  assume n: "\<not> ctx_done s"
  with decay_inv_ctxD [OF reachable_decay_inv [OF assms]] show "decaying s"
    by blast
  from n show "step Decay_ctx s = None" "Register CtxDone s = None" "Done CtxDone s = None"
    by (simp_all add: Register_def Done_def)
next
  fix es s'
  assume r: "run es (Shutdown s) = Some s'"
  have "ctx_done (Shutdown s)"
    by (simp add: Shutdown_def)
  with run_frame(2) [OF r] have c: "ctx_done s'"
    by blast
  then show "Shutdown s' = s'"
    by (rule Shutdown_idem)
  from c show "Register CtxDone s' = Some s'" "Done CtxDone s' = Some s'"
    by (simp_all add: Register_def Done_def)
  {
    assume d: "decaying s'"
    with c show "step Decay_ctx s' = Some (decay_ctx s')"
      by simp
    show "\<not> decaying (decay_ctx s')"
      by (simp add: decay_ctx_frame)
    from d show "Register Send s' = Some (decay_recv 1 s')"
      "Done Send s' = Some (decay_recv (- 1) s')"
      by (simp_all add: Register_def Done_def)
  }
  {
    assume nd: "\<not> decaying s'"
    then show "Register Send s' = None" "Done Send s' = None"
      by (simp_all add: Register_def Done_def)
    {
      fix c s''
      assume "Register c s' = Some s''"
      with nd show "s'' = s'"
        by (cases c) (simp_all add: Register_def split: if_splits)
    }
    {
      fix c s''
      assume "Done c s' = Some s''"
      with nd show "s'' = s'"
        by (cases c) (simp_all add: Done_def split: if_splits)
    }
    {
      fix es2 s2
      assume "run es2 s' = Some s2"
      from run_frame(3) [OF this nd] show "\<not> decaying s2" .
    }
  }
qed

lemma run_Shutdown_Decay_ctx:
  "run [Call_Shutdown, Decay_ctx] (NewSelfCleaningHistogram [] 150000000 0) =
   Some \<lparr>Histogram = [], cnt = 0, timer_t = None, decaying = False, ctx_done = True,
         delay = 150000000, timers = [], started = 0, nanotime = 0\<rparr>"
  by (simp add: NewSelfCleaningHistogram_def Shutdown_def decay_ctx_def)

theorem C3_shutdown_idempotent_witness:
  "step Decay_ctx (NewSelfCleaningHistogram [] 150000000 0) = None \<and>
   step Decay_ctx (Shutdown (NewSelfCleaningHistogram [] 150000000 0)) =
     Some (decay_ctx (Shutdown (NewSelfCleaningHistogram [] 150000000 0))) \<and>
   Shutdown \<lparr>Histogram = [], cnt = 0, timer_t = None, decaying = False, ctx_done = True,
         delay = 150000000, timers = [], started = 0, nanotime = 0\<rparr> =
     \<lparr>Histogram = [], cnt = 0, timer_t = None, decaying = False, ctx_done = True,
         delay = 150000000, timers = [], started = 0, nanotime = 0\<rparr> \<and>
   Register CtxDone \<lparr>Histogram = [], cnt = 0, timer_t = None, decaying = False,
         ctx_done = True, delay = 150000000, timers = [], started = 0, nanotime = 0\<rparr> =
     Some \<lparr>Histogram = [], cnt = 0, timer_t = None, decaying = False, ctx_done = True,
         delay = 150000000, timers = [], started = 0, nanotime = 0\<rparr> \<and>
   Register Send \<lparr>Histogram = [], cnt = 0, timer_t = None, decaying = False,
         ctx_done = True, delay = 150000000, timers = [], started = 0, nanotime = 0\<rparr> = None \<and>
   Done Send \<lparr>Histogram = [], cnt = 0, timer_t = None, decaying = False,
         ctx_done = True, delay = 150000000, timers = [], started = 0, nanotime = 0\<rparr> = None"
proof -
  let ?i = "NewSelfCleaningHistogram [] 150000000 0"
  let ?z = "\<lparr>Histogram = [], cnt = 0, timer_t = None, decaying = False, ctx_done = True,
         delay = 150000000, timers = [], started = 0, nanotime = 0\<rparr>"
  note C = C3_shutdown_idempotent [OF reach_init, of "[]" 150000000 0]
  have n: "\<not> ctx_done ?i" and d: "decaying (Shutdown ?i)" and nd: "\<not> decaying ?z"
    by (simp_all add: NewSelfCleaningHistogram_def Shutdown_def)
  have e0: "run [] (Shutdown ?i) = Some (Shutdown ?i)"
    by simp
  have e: "run [Decay_ctx] (Shutdown ?i) = Some ?z"
    by (simp add: NewSelfCleaningHistogram_def Shutdown_def decay_ctx_def)
  from C n have 1: "step Decay_ctx ?i = None"
    by blast
  from C e0 d have 2: "step Decay_ctx (Shutdown ?i) = Some (decay_ctx (Shutdown ?i))"
    by blast
  from C e nd have 3: "Shutdown ?z = ?z \<and> Register CtxDone ?z = Some ?z \<and>
      Register Send ?z = None \<and> Done Send ?z = None"
    by blast
  from 1 2 3 show ?thesis by blast
qed

lemma decay_recv_Fired:
  assumes "k < length (timers s)" and "timers s ! k = Pending w"
  shows "cnt (decay_recv i (s\<lparr>timers := (timers s)[k := Fired]\<rparr>)) = cnt (decay_recv i s) \<and>
         timer_t (decay_recv i (s\<lparr>timers := (timers s)[k := Fired]\<rparr>)) = timer_t (decay_recv i s) \<and>
         length (timers (decay_recv i (s\<lparr>timers := (timers s)[k := Fired]\<rparr>))) =
           length (timers (decay_recv i s))"
proof (cases "cnt s + i = 0")
  case True
  then have T: "cnt (s\<lparr>timers := (timers s)[k := Fired]\<rparr>) + i = 0" by simp
  show ?thesis
    by (simp only: decay_recv_zero [OF True] decay_recv_zero [OF T]) simp
next
  case False
  then have F: "cnt (s\<lparr>timers := (timers s)[k := Fired]\<rparr>) + i \<noteq> 0" by simp
  show ?thesis
    by (simp only: decay_recv_nonzero [OF False] decay_recv_nonzero [OF F])
       (simp split: option.splits)
qed

lemma decay_recv_Histogram_started:
  "decay_recv i (s\<lparr>Histogram := h, started := n\<rparr>) =
   (decay_recv i s)\<lparr>Histogram := h, started := n\<rparr>"
proof (cases "cnt s + i = 0")
  case True
  then have T: "cnt (s\<lparr>Histogram := h, started := n\<rparr>) + i = 0" by simp
  show ?thesis
    by (simp only: decay_recv_zero [OF True] decay_recv_zero [OF T]) simp
next
  case False
  then have F: "cnt (s\<lparr>Histogram := h, started := n\<rparr>) + i \<noteq> 0" by simp
  show ?thesis
    by (simp only: decay_recv_nonzero [OF False] decay_recv_nonzero [OF F])
       (simp add: Stop_def split: option.splits)
qed

subsection \<open>C9: what a timer fire changes\<close>

text \<open>
  C9: a timer fire (the expiry of the timer, then the run of \<^verbatim>\<open>h.Clear\<close> that it started)
  leaves the counter, \<^verbatim>\<open>t\<close>, the delay and the shutdown status unchanged; the expiry only
  marks that timer as fired, the clear only empties the sample pool. What \<^verbatim>\<open>decay\<close> does
  with a later delta (the new counter, the new \<^verbatim>\<open>t\<close>, whether a timer is made) is the same
  as without the fire.
\<close>

theorem C9_timer_fire_frame:
  "(timer_expire k s = Some s' \<longrightarrow>
      cnt s' = cnt s \<and> timer_t s' = timer_t s \<and> decaying s' = decaying s \<and>
      ctx_done s' = ctx_done s \<and> delay s' = delay s \<and> Histogram s' = Histogram s \<and>
      timers s' = (timers s)[k := Fired] \<and>
      cnt (decay_recv i s') = cnt (decay_recv i s) \<and>
      timer_t (decay_recv i s') = timer_t (decay_recv i s) \<and>
      length (timers (decay_recv i s')) = length (timers (decay_recv i s))) \<and>
   (run_Clear s = Some s' \<longrightarrow>
      cnt s' = cnt s \<and> timer_t s' = timer_t s \<and> decaying s' = decaying s \<and>
      ctx_done s' = ctx_done s \<and> delay s' = delay s \<and> timers s' = timers s \<and>
      Histogram s' = [] \<and>
      cnt (decay_recv i s') = cnt (decay_recv i s) \<and>
      timer_t (decay_recv i s') = timer_t (decay_recv i s) \<and>
      timers (decay_recv i s') = timers (decay_recv i s))"
proof (intro conjI impI)
  assume e: "timer_expire k s = Some s'"
  then obtain w where k: "k < length (timers s)" "timers s ! k = Pending w"
    and s': "s' = s\<lparr>timers := (timers s)[k := Fired], started := Suc (started s)\<rparr>"
    by (auto simp: timer_expire_Some)
  from s' show "cnt s' = cnt s" "timer_t s' = timer_t s" "decaying s' = decaying s"
    "ctx_done s' = ctx_done s" "delay s' = delay s" "Histogram s' = Histogram s"
    "timers s' = (timers s)[k := Fired]"
    by simp_all
  have s'': "s' = (s\<lparr>timers := (timers s)[k := Fired]\<rparr>)\<lparr>Histogram := Histogram s,
      started := Suc (started s)\<rparr>"
    by (simp add: s')
  show "cnt (decay_recv i s') = cnt (decay_recv i s)"
    "timer_t (decay_recv i s') = timer_t (decay_recv i s)"
    "length (timers (decay_recv i s')) = length (timers (decay_recv i s))"
    using decay_recv_Fired [OF k, of i]
    by (simp_all only: s'' decay_recv_Histogram_started) simp_all
next
  assume "run_Clear s = Some s'"
  then have s': "s' = s\<lparr>Histogram := Clear (Histogram s), started := started s - 1\<rparr>"
    by (simp add: run_Clear_Some)
  from s' show "cnt s' = cnt s" "timer_t s' = timer_t s" "decaying s' = decaying s"
    "ctx_done s' = ctx_done s" "delay s' = delay s" "timers s' = timers s"
    "Histogram s' = []"
    by (simp_all add: Clear_def)
  show "cnt (decay_recv i s') = cnt (decay_recv i s)"
    "timer_t (decay_recv i s') = timer_t (decay_recv i s)"
    "timers (decay_recv i s') = timers (decay_recv i s)"
    by (simp_all only: s' decay_recv_Histogram_started) simp_all
qed

lemmas eval_defs =
  NewSelfCleaningHistogram_def Register_def Done_def Shutdown_def decay_recv_def decay_ctx_def
  AfterFunc_def Stop_def when_at_def Let_def timer_expire_def run_Clear_def
  Update_def Clear_def Count_def

lemma run_test_activity:
  "run test_activity test_new =
   Some \<lparr>Histogram = [150, 100, 50], cnt = 0, timer_t = Some 0, decaying = True,
         ctx_done = False, delay = 150000000, timers = [Pending 150000000], started = 0,
         nanotime = 0\<rparr>"
  by (simp add: test_activity_def test_new_def eval_defs)

lemma run_test_idle:
  "run test_idle test_new =
   Some \<lparr>Histogram = [], cnt = 0, timer_t = Some 0, decaying = True,
         ctx_done = False, delay = 150000000, timers = [Fired], started = 0,
         nanotime = 300000000\<rparr>"
  by (simp add: test_idle_def run_append run_test_activity) (simp add: eval_defs)

lemma run_test_busy:
  "run test_busy test_new =
   Some \<lparr>Histogram = [50], cnt = 1, timer_t = Some 0, decaying = True,
         ctx_done = False, delay = 150000000, timers = [Fired], started = 0,
         nanotime = 600000000\<rparr>"
  by (simp add: test_busy_def run_append run_test_idle) (simp add: eval_defs)

theorem C9_timer_fire_frame_witness:
  "timer_expire 0 \<lparr>Histogram = [150, 100, 50], cnt = 0, timer_t = Some 0, decaying = True,
         ctx_done = False, delay = 150000000, timers = [Pending 150000000], started = 0,
         nanotime = 300000000\<rparr> =
   Some \<lparr>Histogram = [150, 100, 50], cnt = 0, timer_t = Some 0, decaying = True,
         ctx_done = False, delay = 150000000, timers = [Fired], started = 1,
         nanotime = 300000000\<rparr> \<and>
   run_Clear \<lparr>Histogram = [150, 100, 50], cnt = 0, timer_t = Some 0, decaying = True,
         ctx_done = False, delay = 150000000, timers = [Fired], started = 1,
         nanotime = 300000000\<rparr> =
   Some \<lparr>Histogram = [], cnt = 0, timer_t = Some 0, decaying = True,
         ctx_done = False, delay = 150000000, timers = [Fired], started = 0,
         nanotime = 300000000\<rparr> \<and>
   cnt (decay_recv 1 \<lparr>Histogram = [], cnt = 0, timer_t = Some 0, decaying = True,
         ctx_done = False, delay = 150000000, timers = [Fired], started = 0,
         nanotime = 300000000\<rparr>) = 1"
proof -
  let ?a = "\<lparr>Histogram = [150, 100, 50], cnt = 0, timer_t = Some 0, decaying = True,
         ctx_done = False, delay = 150000000, timers = [Pending 150000000], started = 0,
         nanotime = 300000000\<rparr>"
  let ?b = "\<lparr>Histogram = [150, 100, 50], cnt = 0, timer_t = Some 0, decaying = True,
         ctx_done = False, delay = 150000000, timers = [Fired], started = 1,
         nanotime = 300000000\<rparr>"
  let ?c = "\<lparr>Histogram = [], cnt = 0, timer_t = Some 0, decaying = True,
         ctx_done = False, delay = 150000000, timers = [Fired], started = 0,
         nanotime = 300000000\<rparr>"
  have ab: "timer_expire 0 ?a = Some ?b"
    by (simp add: timer_expire_def)
  have bc: "run_Clear ?b = Some ?c"
    by (simp add: run_Clear_def Clear_def)
  from C9_timer_fire_frame [of 0 ?a ?b 1] ab
  have 1: "cnt (decay_recv 1 ?b) = cnt (decay_recv 1 ?a)" by blast
  from C9_timer_fire_frame [of 0 ?b ?c 1] bc
  have 2: "cnt (decay_recv 1 ?c) = cnt (decay_recv 1 ?b)" by blast
  have "cnt (decay_recv 1 ?a) = 1"
    by (simp add: decay_recv_frame)
  with 1 2 ab bc show ?thesis by simp
qed

subsection \<open>C6: the scenario of the test\<close>

text \<open>
  C6: with a delay of 150 ms over an empty histogram, after two \<^verbatim>\<open>Register\<close>, three
  \<^verbatim>\<open>Update\<close> and two \<^verbatim>\<open>Done\<close> calls \<^verbatim>\<open>Count()\<close> is 3, and the timer cannot expire before
  150 ms have passed; after the delay has elapsed and the timer has fired \<^verbatim>\<open>Count()\<close> is 0;
  after a further \<^verbatim>\<open>Register\<close> and \<^verbatim>\<open>Update(50)\<close>, however long one waits no timer can
  expire and no clear can run, and a further \<^verbatim>\<open>Update(150)\<close> gives \<^verbatim>\<open>Count()\<close> 2.
\<close>

theorem C6_test_scenario:
  "Count_after test_activity test_new = Some 3 \<and>
   run (test_activity @ [Sleep 149999999, Timer_expire 0]) test_new = None \<and>
   Count_after test_idle test_new = Some 0 \<and>
   (\<forall>k. run (test_busy @ [Timer_expire k]) test_new = None) \<and>
   run (test_busy @ [Run_Clear]) test_new = None \<and>
   Count_after test_busy test_new = Some 1 \<and>
   Count_after (test_busy @ [Call_Update 150]) test_new = Some 2"
proof (intro conjI allI)
  show "Count_after test_activity test_new = Some 3"
    by (simp add: Count_after_def run_test_activity Count_def)
  show "run (test_activity @ [Sleep 149999999, Timer_expire 0]) test_new = None"
    by (simp add: run_append run_test_activity) (simp add: timer_expire_def)
  show "Count_after test_idle test_new = Some 0"
    by (simp add: Count_after_def run_test_idle Count_def)
  show "run (test_busy @ [Timer_expire k]) test_new = None" for k
    by (simp add: run_append run_test_busy) (simp add: timer_expire_def nth_Cons split: nat.splits)
  show "run (test_busy @ [Run_Clear]) test_new = None"
    by (simp add: run_append run_test_busy) (simp add: run_Clear_def)
  show "Count_after test_busy test_new = Some 1"
    by (simp add: Count_after_def run_test_busy Count_def)
  show "Count_after (test_busy @ [Call_Update 150]) test_new = Some 2"
    by (simp add: Count_after_def run_append run_test_busy) (simp add: Count_def Update_def)
qed

subsection \<open>C10: any delay is accepted\<close>

text \<open>
  C10: \<^verbatim>\<open>NewSelfCleaningHistogram\<close> takes every delay, also zero and negative ones, and
  returns with the coordinator running. With a non-positive delay the timer made when an
  accepted delta brings the counter to zero has the current clock value as its deadline,
  so it can expire at once and its action clears the histogram.
\<close>

theorem C10_any_delay:
  "reachable (NewSelfCleaningHistogram histogram d clock) \<and>
   decaying (NewSelfCleaningHistogram histogram d clock) \<and>
   \<not> ctx_done (NewSelfCleaningHistogram histogram d clock) \<and>
   delay (NewSelfCleaningHistogram histogram d clock) = d \<and>
   (run es (NewSelfCleaningHistogram histogram d clock) = Some s \<and> sint d \<le> 0 \<and>
    decaying s \<and> (i = 1 \<or> i = - 1) \<and> cnt s + i = 0 \<longrightarrow>
      timers (decay_recv i s) = timers s @ [Pending (nanotime s)] \<and>
      (\<exists>s1 s2. timer_expire (length (timers s)) (decay_recv i s) = Some s1 \<and>
         run_Clear s1 = Some s2 \<and> Histogram s2 = []))"
proof (intro conjI impI)
  show "reachable (NewSelfCleaningHistogram histogram d clock)"
    by (rule reach_init)
  show "decaying (NewSelfCleaningHistogram histogram d clock)"
    "\<not> ctx_done (NewSelfCleaningHistogram histogram d clock)"
    "delay (NewSelfCleaningHistogram histogram d clock) = d"
    by (simp_all add: NewSelfCleaningHistogram_def)
next
  assume a: "run es (NewSelfCleaningHistogram histogram d clock) = Some s \<and> sint d \<le> 0 \<and>
    decaying s \<and> (i = 1 \<or> i = - 1) \<and> cnt s + i = 0"
  then have z: "cnt s + i = 0" and neg: "sint d \<le> 0"
    and r: "run es (NewSelfCleaningHistogram histogram d clock) = Some s"
    by blast+
  have d: "delay s = d"
    using run_frame(1) [OF r] by (simp add: NewSelfCleaningHistogram_def)
  from neg have w: "when_at d (nanotime s) = nanotime s"
    by (simp add: when_at_def)
  show "timers (decay_recv i s) = timers s @ [Pending (nanotime s)]"
    by (simp only: decay_recv_zero [OF z]) (simp add: d w)
  show "\<exists>s1 s2. timer_expire (length (timers s)) (decay_recv i s) = Some s1 \<and>
         run_Clear s1 = Some s2 \<and> Histogram s2 = []"
    by (simp only: decay_recv_zero [OF z])
       (simp add: d w timer_expire_def run_Clear_def Clear_def)
qed

lemma run_Register_negative_delay:
  "run [Call_Register Send] (NewSelfCleaningHistogram [7] (- 1) 0) =
   Some \<lparr>Histogram = [7], cnt = 1, timer_t = None, decaying = True, ctx_done = False,
         delay = - 1, timers = [], started = 0, nanotime = 0\<rparr>"
  by (simp add: NewSelfCleaningHistogram_def Register_def decay_recv_def Let_def)

theorem C10_any_delay_witness:
  "timers (decay_recv (- 1) \<lparr>Histogram = [7], cnt = 1, timer_t = None, decaying = True,
      ctx_done = False, delay = - 1, timers = [], started = 0, nanotime = 0\<rparr>) = [Pending 0] \<and>
   (\<exists>s1 s2. timer_expire 0 (decay_recv (- 1) \<lparr>Histogram = [7], cnt = 1, timer_t = None,
      decaying = True, ctx_done = False, delay = - 1, timers = [], started = 0,
      nanotime = 0\<rparr>) = Some s1 \<and> run_Clear s1 = Some s2 \<and> Histogram s2 = [])"
  using C10_any_delay [of "[7]" "- 1" 0 "[Call_Register Send]"
      "\<lparr>Histogram = [7], cnt = 1, timer_t = None, decaying = True, ctx_done = False,
         delay = - 1, timers = [], started = 0, nanotime = 0\<rparr>" "- 1"]
    run_Register_negative_delay
  by simp

section \<open>The counter along an execution\<close>

lemma cnt_step:
  assumes "step e s = Some s'"
  shows "cnt s' = cnt s + of_nat (registers [e]) - of_nat (dones [e])"
proof (cases e)
  case (Call_Register c)
  with assms show ?thesis
    by (cases c)
       (auto simp: Register_Send Register_CtxDone decay_recv_frame registers_def dones_def)
next
  case (Call_Done c)
  with assms show ?thesis
    by (cases c)
       (auto simp: Done_Send Done_CtxDone decay_recv_frame registers_def dones_def)
next
  case Call_Shutdown
  with assms show ?thesis by (auto simp: Shutdown_def registers_def dones_def)
next
  case (Call_Update v)
  with assms show ?thesis by (auto simp: registers_def dones_def)
next
  case Decay_ctx
  with assms show ?thesis
    by (auto simp: decay_ctx_frame registers_def dones_def split: if_splits)
next
  case (Timer_expire k)
  with assms show ?thesis by (auto simp: timer_expire_Some registers_def dones_def)
next
  case Run_Clear
  with assms show ?thesis by (auto simp: run_Clear_Some registers_def dones_def)
next
  case (Sleep d)
  with assms show ?thesis by (auto simp: registers_def dones_def)
qed

lemma registers_Cons: "registers (e # es) = registers [e] + registers es"
  by (simp add: registers_def)

lemma dones_Cons: "dones (e # es) = dones [e] + dones es"
  by (simp add: dones_def)

lemma cnt_run:
  "run es s = Some s' \<Longrightarrow> cnt s' = cnt s + of_nat (registers es) - of_nat (dones es)"
proof (induction es arbitrary: s)
  case Nil
  then show ?case by (simp add: registers_def dones_def)
next
  case (Cons e es)
  then obtain s1 where s1: "step e s = Some s1" "run es s1 = Some s'"
    by (auto split: option.splits)
  have "cnt s' = cnt s1 + of_nat (registers es) - of_nat (dones es)"
    by (rule Cons.IH [OF s1(2)])
  also have "cnt s1 = cnt s + of_nat (registers [e]) - of_nat (dones [e])"
    by (rule cnt_step [OF s1(1)])
  finally show ?case
    by (simp add: registers_Cons [of e es] dones_Cons [of e es])
qed

lemma sint_word_of_int_exact:
  assumes "- (2 ^ 63) \<le> x" and "x < 2 ^ 63"
  shows "sint (word_of_int x :: 64 word) = x"
  using assms by (simp add: signed_of_int signed_take_bit_int_eq_self)

lemma deltas_total:
  "decaying s \<Longrightarrow> list_all is_delta es \<Longrightarrow> \<exists>s'. run es s = Some s' \<and> decaying s'"
proof (induction es arbitrary: s)
  case Nil
  then show ?case by simp
next
  case (Cons e es)
  from Cons.prems(2) have "is_delta e" and es: "list_all is_delta es"
    by simp_all
  then have e: "e = Call_Register Send \<or> e = Call_Done Send"
    by (simp add: is_delta_def)
  from e Cons.prems(1) obtain s1 where s1: "step e s = Some s1" "decaying s1"
    by (auto simp: Register_def Done_def decay_recv_frame)
  from Cons.IH [OF s1(2) es] s1(1) show ?case by simp
qed

lemma registers_perm: "mset es' = mset es \<Longrightarrow> registers es' = registers es"
  unfolding registers_def by (metis count_mset)

lemma dones_perm: "mset es' = mset es \<Longrightarrow> dones es' = dones es"
  unfolding dones_def by (metis count_mset)

lemma deltas_perm: "mset es' = mset es \<Longrightarrow> list_all is_delta es \<Longrightarrow> list_all is_delta es'"
  unfolding list_all_iff by (metis mset_eq_setD)

lemma cnt_run_init:
  assumes "run es (NewSelfCleaningHistogram histogram d clock) = Some s"
  shows "cnt s = of_nat (registers es) - of_nat (dones es)"
  using cnt_run [OF assms] by (simp add: NewSelfCleaningHistogram_def)

lemma count_list_replicate_same: "count_list (replicate n x) x = n"
  by (induction n) simp_all

lemma count_list_replicate_other: "x \<noteq> y \<Longrightarrow> count_list (replicate n x) y = 0"
  by (induction n) simp_all

lemma list_all_replicate_delta:
  "is_delta e \<Longrightarrow> list_all is_delta (replicate n e)"
  by (simp add: list_all_iff)

subsection \<open>C7: the counter is the sum of the accepted deltas\<close>

text \<open>
  C7 as stated fails where the sum leaves the range of \<^verbatim>\<open>int\<close>: \<^verbatim>\<open>cnt\<close> is a Go \<^verbatim>\<open>int\<close>
  and \<^verbatim>\<open>cnt += i\<close> wraps around. After \<open>2 ^ 63\<close> accepted \<^verbatim>\<open>Register\<close> deltas and no
  \<^verbatim>\<open>Done\<close> the counter of a 64-bit platform is \<open>- 2 ^ 63\<close>, not \<open>2 ^ 63\<close>. (With a 32-bit
  \<^verbatim>\<open>int\<close> the same happens after \<open>2 ^ 31\<close> deltas.)
\<close>

theorem C7_overflow_counterexample:
  "final_cnt (replicate (2 ^ 63) (Call_Register Send)) test_new = Some (- (2 ^ 63)) \<and>
   int (registers (replicate (2 ^ 63) (Call_Register Send))) -
     int (dones (replicate (2 ^ 63) (Call_Register Send))) = 2 ^ 63 \<and>
   final_cnt (replicate (2 ^ 63) (Call_Register Send)) test_new \<noteq>
     Some (int (registers (replicate (2 ^ 63) (Call_Register Send))) -
           int (dones (replicate (2 ^ 63) (Call_Register Send))))"
proof -
  let ?es = "replicate (2 ^ 63) (Call_Register Send)"
  have "decaying test_new"
    by (simp add: test_new_def NewSelfCleaningHistogram_def)
  moreover have "list_all is_delta ?es"
    by (rule list_all_replicate_delta) (simp add: is_delta_def)
  ultimately obtain s where s: "run ?es test_new = Some s"
    using deltas_total by blast
  have R: "registers ?es = 2 ^ 63"
    unfolding registers_def by (rule count_list_replicate_same)
  have D: "dones ?es = 0"
    unfolding dones_def by (rule count_list_replicate_other) simp
  from cnt_run_init [OF s [unfolded test_new_def]] have "cnt s = of_nat (2 ^ 63)"
    unfolding R D by simp
  then have "sint (cnt s) = - (2 ^ 63)"
    by simp
  with s show ?thesis
    unfolding R D by (simp add: final_cnt_def)
qed

text \<open>
  C7, amended: after any execution the counter equals the number of accepted \<^verbatim>\<open>Register\<close>
  deltas minus the number of accepted \<^verbatim>\<open>Done\<close> deltas computed in the wrapping arithmetic
  of \<^verbatim>\<open>int\<close>; it is exactly that difference whenever the difference lies in
  \<open>- 2 ^ 63 \<dots> 2 ^ 63 - 1\<close>. It is the same for every reordering of the execution that can
  run, and every reordering of a sequence of accepted deltas can run.
\<close>

theorem C7_counter_wrapped_sum:
  assumes "run es (NewSelfCleaningHistogram histogram d clock) = Some s"
  shows "cnt s = of_nat (registers es) - of_nat (dones es) \<and>
         (- (2 ^ 63) \<le> int (registers es) - int (dones es) \<and>
          int (registers es) - int (dones es) < 2 ^ 63 \<longrightarrow>
            sint (cnt s) = int (registers es) - int (dones es)) \<and>
         (\<forall>es' s'. mset es' = mset es \<and>
            run es' (NewSelfCleaningHistogram histogram d clock) = Some s' \<longrightarrow> cnt s' = cnt s) \<and>
         (\<forall>es'. mset es' = mset es \<and> list_all is_delta es \<longrightarrow>
            (\<exists>s'. run es' (NewSelfCleaningHistogram histogram d clock) = Some s' \<and>
               cnt s' = cnt s))"
proof -
  let ?i = "NewSelfCleaningHistogram histogram d clock"
  have 1: "cnt s = of_nat (registers es) - of_nat (dones es)"
    by (rule cnt_run_init [OF assms])
  have "cnt s = word_of_int (int (registers es) - int (dones es))"
    by (simp add: 1)
  then have 2: "sint (cnt s) = int (registers es) - int (dones es)"
    if "- (2 ^ 63) \<le> int (registers es) - int (dones es)"
      and "int (registers es) - int (dones es) < 2 ^ 63"
    using sint_word_of_int_exact [OF that] by simp
  have 3: "cnt s' = cnt s" if "mset es' = mset es" and "run es' ?i = Some s'" for es' s'
    using cnt_run_init [OF that(2)] registers_perm [OF that(1)] dones_perm [OF that(1)]
    by (simp add: 1)
  have 4: "\<exists>s'. run es' ?i = Some s' \<and> cnt s' = cnt s"
    if p: "mset es' = mset es" and "list_all is_delta es" for es'
  proof -
    have "decaying ?i" by (simp add: NewSelfCleaningHistogram_def)
    from deltas_total [OF this deltas_perm [OF that]]
    obtain s' where "run es' ?i = Some s'" by blast
    with 3 [OF p] show ?thesis by blast
  qed
  from 1 2 3 4 show ?thesis by blast
qed

lemma run_Done_Done_Register:
  "run [Call_Done Send, Call_Done Send, Call_Register Send]
     (NewSelfCleaningHistogram [] 150000000 0) =
   Some \<lparr>Histogram = [], cnt = - 1, timer_t = None, decaying = True, ctx_done = False,
         delay = 150000000, timers = [], started = 0, nanotime = 0\<rparr>"
  by (simp add: eval_defs)

theorem C7_counter_wrapped_sum_witness:
  "sint (cnt \<lparr>Histogram = [], cnt = - 1, timer_t = None, decaying = True, ctx_done = False,
         delay = 150000000, timers = [], started = 0, nanotime = 0\<rparr>) = - 1 \<and>
   (\<exists>s'. run [Call_Register Send, Call_Done Send, Call_Done Send]
           (NewSelfCleaningHistogram [] 150000000 0) = Some s' \<and> cnt s' = - 1)"
proof -
  let ?es = "[Call_Done Send, Call_Done Send, Call_Register Send]"
  let ?es' = "[Call_Register Send, Call_Done Send, Call_Done Send]"
  have R: "registers ?es = 1" and D: "dones ?es = 2"
    by (simp_all add: registers_def dones_def)
  have p: "mset ?es' = mset ?es" by simp
  have a: "list_all is_delta ?es" by (simp add: is_delta_def)
  note C = C7_counter_wrapped_sum [OF run_Done_Done_Register, unfolded R D]
  from C have 1: "sint (cnt \<lparr>Histogram = [], cnt = - 1, timer_t = None, decaying = True,
      ctx_done = False, delay = 150000000, timers = [], started = 0, nanotime = 0\<rparr>) = - 1"
    by simp
  from C p a have "\<exists>s'. run ?es' (NewSelfCleaningHistogram [] 150000000 0) = Some s' \<and>
      cnt s' = cnt \<lparr>Histogram = [], cnt = - 1, timer_t = None, decaying = True,
      ctx_done = False, delay = 150000000, timers = [], started = 0, nanotime = 0\<rparr>"
    by blast
  then have 2: "\<exists>s'. run ?es' (NewSelfCleaningHistogram [] 150000000 0) = Some s' \<and> cnt s' = - 1"
    by simp
  from 1 2 show ?thesis by blast
qed

lemma armed_recv_zero: "cnt s + i = 0 \<Longrightarrow> armed (decay_recv i s)"
  by (simp only: decay_recv_zero) (simp add: armed_def)

lemma deltas_zero_armed:
  assumes "list_all is_delta es" and "es \<noteq> []" and "decaying s" and "run es s = Some s'"
    and "cnt s' = 0"
  shows "armed s'"
proof -
  from assms(2) obtain es0 e where es: "es = es0 @ [e]"
    by (metis rev_exhaust)
  with assms(1) have d0: "list_all is_delta es0" and "is_delta e" by simp_all
  then have e: "e = Call_Register Send \<or> e = Call_Done Send" by (simp add: is_delta_def)
  from deltas_total [OF assms(3) d0] obtain s1 where s1: "run es0 s = Some s1" "decaying s1"
    by blast
  with assms(4) es have st: "step e s1 = Some s'"
    by (simp add: run_append split: option.splits)
  from e st s1(2) obtain i where i: "s' = decay_recv i s1"
    by (auto simp: Register_def Done_def)
  with assms(5) have "cnt s1 + i = 0" by (simp add: decay_recv_frame)
  then show ?thesis unfolding i by (rule armed_recv_zero)
qed

lemma reach_negative_one:
  assumes "list_all is_delta es" and "registers es < dones es"
  shows "\<exists>n \<le> length es. int (registers (take n es)) - int (dones (take n es)) = - 1"
  using assms
proof (induction es rule: rev_induct)
  case Nil
  then show ?case by (simp add: registers_def dones_def)
next
  case (snoc e es)
  from snoc.prems(1) have d: "list_all is_delta es" and "is_delta e" by simp_all
  then have e: "e = Call_Register Send \<or> e = Call_Done Send" by (simp add: is_delta_def)
  show ?case
  proof (cases "registers es < dones es")
    case True
    from snoc.IH [OF d True] obtain n where "n \<le> length es"
      "int (registers (take n es)) - int (dones (take n es)) = - 1" by blast
    then show ?thesis by (intro exI [of _ n]) simp
  next
    case False
    with snoc.prems(2) e have "int (registers (es @ [e])) - int (dones (es @ [e])) = - 1"
      by (auto simp: registers_def dones_def)
    then show ?thesis by (intro exI [of _ "length (es @ [e])"]) simp
  qed
qed

lemma not_armed_nonzero:
  assumes "decay_inv s" and "cnt s \<noteq> 0"
  shows "\<not> armed s"
  using assms decay_inv_pendingD [OF assms(1)] by (auto simp: armed_iff)

lemma deltas_state:
  assumes "list_all is_delta es"
  shows "\<exists>s. run es (NewSelfCleaningHistogram histogram d clock) = Some s \<and>
           decaying s \<and> decay_inv s \<and>
           cnt s = of_nat (registers es) - of_nat (dones es) \<and>
           (cnt s \<noteq> 0 \<longrightarrow> \<not> armed s) \<and>
           (es \<noteq> [] \<and> cnt s = 0 \<longrightarrow> armed s)"
proof -
  let ?i = "NewSelfCleaningHistogram histogram d clock"
  have i: "decaying ?i" by (simp add: NewSelfCleaningHistogram_def)
  from deltas_total [OF i assms] obtain s where s: "run es ?i = Some s" "decaying s"
    by blast
  have inv: "decay_inv s"
    by (rule reachable_decay_inv [OF reachable_run [OF reach_init s(1)]])
  have c: "cnt s = of_nat (registers es) - of_nat (dones es)"
    by (rule cnt_run_init [OF s(1)])
  have a: "armed s" if "es \<noteq> []" and "cnt s = 0"
    by (rule deltas_zero_armed [OF assms that(1) i s(1) that(2)])
  from s inv c a not_armed_nonzero [OF inv] show ?thesis by blast
qed

lemma deltas_take: "list_all is_delta es \<Longrightarrow> list_all is_delta (take n es)"
  unfolding list_all_iff by (meson in_set_takeD)

subsection \<open>C5: more Done than Register\<close>

text \<open>
  C5: every sequence of accepted deltas runs to its end with \<^verbatim>\<open>decay\<close> still in its loop
  and its invariant intact, and after each prefix the counter is the wrapped sum of the
  deltas, no timer is armed if the counter is not zero, and a timer is armed if the last
  delta brought the counter to exactly zero; the same holds after any execution at all,
  with timer fires, updates and sleeps in between. If \<^verbatim>\<open>Done\<close> is accepted more often than
  \<^verbatim>\<open>Register\<close> the counter goes negative: after some prefix it is \<open>-1\<close>, with no timer
  armed; and the final counter is the negative difference itself as long as the excess of
  \<^verbatim>\<open>Done\<close> is at most \<open>2 ^ 63\<close>.
\<close>

theorem C5_unbalanced_done:
  assumes "list_all is_delta es"
  shows "(\<forall>n \<le> length es.
            \<exists>s. run (take n es) (NewSelfCleaningHistogram histogram d clock) = Some s \<and>
              decaying s \<and> decay_inv s \<and>
              cnt s = of_nat (registers (take n es)) - of_nat (dones (take n es)) \<and>
              (cnt s \<noteq> 0 \<longrightarrow> \<not> armed s) \<and>
              (0 < n \<and> cnt s = 0 \<longrightarrow> armed s)) \<and>
         (registers es < dones es \<longrightarrow>
            (\<exists>n \<le> length es. \<exists>s.
               run (take n es) (NewSelfCleaningHistogram histogram d clock) = Some s \<and>
               sint (cnt s) = - 1 \<and> \<not> armed s)) \<and>
         (registers es < dones es \<and> dones es - registers es \<le> 2 ^ 63 \<longrightarrow>
            (\<exists>s. run es (NewSelfCleaningHistogram histogram d clock) = Some s \<and>
               sint (cnt s) = int (registers es) - int (dones es) \<and> sint (cnt s) < 0 \<and>
               \<not> armed s)) \<and>
         (\<forall>fs s. run fs (NewSelfCleaningHistogram histogram d clock) = Some s \<longrightarrow>
            decay_inv s \<and> cnt s = of_nat (registers fs) - of_nat (dones fs) \<and>
            (cnt s \<noteq> 0 \<longrightarrow> \<not> armed s) \<and>
            (\<forall>i. cnt s + i = 0 \<longrightarrow> armed (decay_recv i s)))"
proof (intro conjI allI impI)
  let ?i = "NewSelfCleaningHistogram histogram d clock"
  fix n
  assume n: "n \<le> length es"
  from deltas_state [OF deltas_take [OF assms], of n histogram d clock]
  obtain s where s: "run (take n es) ?i = Some s" "decaying s" "decay_inv s"
      "cnt s = of_nat (registers (take n es)) - of_nat (dones (take n es))"
      "cnt s \<noteq> 0 \<longrightarrow> \<not> armed s" "take n es \<noteq> [] \<and> cnt s = 0 \<longrightarrow> armed s"
    by blast
  have "armed s" if "0 < n \<and> cnt s = 0"
  proof -
    from that n have "take n es \<noteq> []" by auto
    with s(6) that show ?thesis by blast
  qed
  with s show "\<exists>s. run (take n es) ?i = Some s \<and> decaying s \<and> decay_inv s \<and>
      cnt s = of_nat (registers (take n es)) - of_nat (dones (take n es)) \<and>
      (cnt s \<noteq> 0 \<longrightarrow> \<not> armed s) \<and> (0 < n \<and> cnt s = 0 \<longrightarrow> armed s)"
    by blast
next
  let ?i = "NewSelfCleaningHistogram histogram d clock"
  assume less: "registers es < dones es"
  from reach_negative_one [OF assms less] obtain n where n: "n \<le> length es"
    "int (registers (take n es)) - int (dones (take n es)) = - 1"
    by blast
  from deltas_state [OF deltas_take [OF assms], of n histogram d clock]
  obtain s where s: "run (take n es) ?i = Some s"
      "cnt s = of_nat (registers (take n es)) - of_nat (dones (take n es))"
      "cnt s \<noteq> 0 \<longrightarrow> \<not> armed s"
    by blast
  have "cnt s = word_of_int (int (registers (take n es)) - int (dones (take n es)))"
    by (simp add: s(2))
  then have c: "cnt s = - 1"
    by (simp add: n(2))
  then have "sint (cnt s) = - 1" "cnt s \<noteq> 0"
    by simp_all
  with s n(1) show "\<exists>n \<le> length es. \<exists>s. run (take n es) ?i = Some s \<and>
      sint (cnt s) = - 1 \<and> \<not> armed s"
    by blast
next
  let ?i = "NewSelfCleaningHistogram histogram d clock"
  let ?x = "int (registers es) - int (dones es)"
  assume a: "registers es < dones es \<and> dones es - registers es \<le> 2 ^ 63"
  from deltas_state [OF assms, of histogram d clock]
  obtain s where s: "run es ?i = Some s"
      "cnt s = of_nat (registers es) - of_nat (dones es)"
      "cnt s \<noteq> 0 \<longrightarrow> \<not> armed s"
    by blast
  from a have neg: "?x < 0" by simp
  from a have "int (dones es - registers es) \<le> 2 ^ 63"
    by (metis of_nat_le_iff of_nat_numeral of_nat_power)
  with a have lo: "- (2 ^ 63) \<le> ?x" by simp
  from neg have hi: "?x < 2 ^ 63" by simp
  have "cnt s = word_of_int ?x"
    by (simp add: s(2))
  with sint_word_of_int_exact [OF lo hi] have e: "sint (cnt s) = ?x"
    by simp
  with neg have "cnt s \<noteq> 0" by auto
  with s e neg show "\<exists>s. run es ?i = Some s \<and> sint (cnt s) = ?x \<and> sint (cnt s) < 0 \<and>
      \<not> armed s"
    by auto
next
  fix fs s i
  assume r: "run fs (NewSelfCleaningHistogram histogram d clock) = Some s"
  show inv: "decay_inv s"
    by (rule reachable_decay_inv [OF reachable_run [OF reach_init r]])
  show "cnt s = of_nat (registers fs) - of_nat (dones fs)"
    by (rule cnt_run_init [OF r])
  show "cnt s \<noteq> 0 \<Longrightarrow> \<not> armed s"
    by (rule not_armed_nonzero [OF inv])
  show "cnt s + i = 0 \<Longrightarrow> armed (decay_recv i s)"
    by (rule armed_recv_zero)
qed

theorem C5_unbalanced_done_witness:
  "(\<exists>s. run [Call_Done Send, Call_Done Send, Call_Register Send]
          (NewSelfCleaningHistogram [] 150000000 0) = Some s \<and>
        sint (cnt s) = - 1 \<and> \<not> armed s) \<and>
   (\<exists>s. run [Call_Done Send, Call_Done Send, Call_Register Send, Call_Register Send]
          (NewSelfCleaningHistogram [] 150000000 0) = Some s \<and> cnt s = 0 \<and> armed s)"
proof -
  let ?i = "NewSelfCleaningHistogram [] 150000000 0"
  let ?es = "[Call_Done Send, Call_Done Send, Call_Register Send]"
  let ?fs = "[Call_Done Send, Call_Done Send, Call_Register Send, Call_Register Send]"
  have d: "list_all is_delta ?es" "list_all is_delta ?fs"
    by (simp_all add: is_delta_def)
  have R: "registers ?es = 1" "dones ?es = 2" "registers ?fs = 2" "dones ?fs = 2"
    by (simp_all add: registers_def dones_def)
  have lt: "registers ?es < dones ?es \<and> dones ?es - registers ?es \<le> 2 ^ 63"
    by (simp add: R)
  from C5_unbalanced_done [OF d(1), of "[]" 150000000 0] lt
  obtain s where s: "run ?es ?i = Some s"
      "sint (cnt s) = int (registers ?es) - int (dones ?es)" "\<not> armed s"
    by blast
  from s(2) have "sint (cnt s) = - 1"
    by (simp add: R)
  with s have 1: "\<exists>s. run ?es ?i = Some s \<and> sint (cnt s) = - 1 \<and> \<not> armed s"
    by blast
  have t: "take 4 ?fs = ?fs" and n: "(4::nat) \<le> length ?fs"
    by simp_all
  from C5_unbalanced_done [OF d(2), of "[]" 150000000 0] n
  obtain s' where "run (take 4 ?fs) ?i = Some s'"
      "cnt s' = of_nat (registers (take 4 ?fs)) - of_nat (dones (take 4 ?fs))"
      "0 < (4::nat) \<and> cnt s' = 0 \<longrightarrow> armed s'"
    by blast
  then have s': "run ?fs ?i = Some s'" "cnt s' = of_nat (registers ?fs) - of_nat (dones ?fs)"
      "0 < (4::nat) \<and> cnt s' = 0 \<longrightarrow> armed s'"
    unfolding t by blast+
  from s'(2) have z: "cnt s' = 0"
    by (simp add: R)
  with s'(3) have "armed s'"
    by simp
  with s'(1) z have 2: "\<exists>s. run ?fs ?i = Some s \<and> cnt s = 0 \<and> armed s"
    by blast
  from 1 2 show ?thesis by blast
qed

lemma Done_ready:
  assumes "reachable s"
  shows "\<exists>c s'. Done c s = Some s'"
proof (cases "decaying s")
  case True
  then have "Done Send s = Some (decay_recv (- 1) s)" by (simp add: Done_def)
  then show ?thesis by blast
next
  case False
  from decay_inv_ctxD [OF reachable_decay_inv [OF assms] False]
  have "Done CtxDone s = Some s" by (simp add: Done_def)
  then show ?thesis by blast
qed

lemma stopped_step:
  assumes "\<not> decaying s" and "\<not> armed s" and "step e s = Some s'"
  shows "timers s' = timers s \<and> (\<forall>k. e \<noteq> Timer_expire k) \<and>
         started s' + count_list [e] Run_Clear = started s \<and>
         (e \<noteq> Run_Clear \<longrightarrow> Histogram s' = Histogram s @ updates [e])"
proof (cases e)
  case (Call_Register c)
  with assms show ?thesis
    by (cases c) (auto simp: Register_def split: if_splits)
next
  case (Call_Done c)
  with assms show ?thesis
    by (cases c) (auto simp: Done_def split: if_splits)
next
  case Call_Shutdown
  with assms show ?thesis by (auto simp: Shutdown_def)
next
  case (Call_Update v)
  with assms show ?thesis by (auto simp: Update_def)
next
  case Decay_ctx
  with assms show ?thesis by auto
next
  case (Timer_expire k)
  with assms(3) obtain w where "k < length (timers s)" "timers s ! k = Pending w"
    by (auto simp: timer_expire_Some)
  then have "armed s" by (auto simp: armed_iff)
  with assms(2) show ?thesis by blast
next
  case Run_Clear
  with assms show ?thesis by (auto simp: run_Clear_Some)
next
  case (Sleep d)
  with assms show ?thesis by auto
qed

lemma updates_append: "updates (es @ es') = updates es @ updates es'"
  by (induction es rule: updates.induct) simp_all

lemma stopped_run:
  assumes "\<not> decaying s" and "\<not> armed s" and "run es s = Some s'"
  shows "timers s' = timers s \<and> (\<forall>k. Timer_expire k \<notin> set es) \<and>
         started s' + count_list es Run_Clear = started s \<and>
         (Run_Clear \<notin> set es \<longrightarrow> Histogram s' = Histogram s @ updates es)"
  using assms
proof (induction es arbitrary: s)
  case Nil
  then show ?case by simp
next
  case (Cons e es)
  then obtain s1 where s1: "step e s = Some s1" "run es s1 = Some s'"
    by (auto split: option.splits)
  note st = stopped_step [OF Cons.prems(1,2) s1(1)]
  have nd: "\<not> decaying s1"
    by (rule step_frame(3) [OF s1(1) Cons.prems(1)])
  from st Cons.prems(2) have na: "\<not> armed s1"
    by (simp add: armed_def)
  note ih = Cons.IH [OF nd na s1(2)]
  have 1: "timers s' = timers s"
    using ih st by simp
  have 2: "\<forall>k. Timer_expire k \<notin> set (e # es)"
    using ih st by auto
  have 3: "started s' + count_list (e # es) Run_Clear = started s"
    using ih st by auto
  have 4: "Histogram s' = Histogram s @ updates (e # es)" if "Run_Clear \<notin> set (e # es)"
  proof -
    from that have "e \<noteq> Run_Clear" "Run_Clear \<notin> set es" by auto
    with ih st have "Histogram s' = (Histogram s @ updates [e]) @ updates es" by simp
    also have "\<dots> = Histogram s @ updates ([e] @ es)"
      by (simp only: updates_append append_assoc)
    finally show ?thesis by simp
  qed
  from 1 2 3 4 show ?case by blast
qed

lemma stopped_not_armed:
  assumes "decay_inv s" and "\<not> decaying s"
  shows "\<not> armed s"
  using decay_inv_pendingD [OF assms(1)] assms(2) by (auto simp: armed_iff)

lemma not_armed_expire: "\<not> armed s \<Longrightarrow> timer_expire k s = None"
  by (cases "timer_expire k s") (auto simp: timer_expire_Some armed_iff)

lemma run_clear_after_stop:
  "run [Call_Register Send, Call_Update 150, Call_Done Send, Sleep 150000000, Timer_expire 0,
        Call_Shutdown, Decay_ctx] test_new =
   Some \<lparr>Histogram = [150], cnt = 0, timer_t = Some 0, decaying = False, ctx_done = True,
         delay = 150000000, timers = [Fired], started = 1, nanotime = 150000000\<rparr>"
  by (simp add: test_new_def eval_defs)

subsection \<open>C4: Shutdown freezes the state\<close>

text \<open>
  C4 as stated fails for a clear that is already under way. The timer expires, which
  starts \<^verbatim>\<open>h.Clear\<close> in its own goroutine; before that goroutine runs, \<^verbatim>\<open>Shutdown\<close> is called
  and \<^verbatim>\<open>decay\<close> takes its cancellation branch, where \<^verbatim>\<open>t.Stop()\<close> finds the timer already
  fired and changes nothing; \<^verbatim>\<open>h.Clear\<close> then runs after the coordinator has stopped, and
  the sample present at shutdown time is gone.
\<close>

theorem C4_clear_after_coordinator_stopped:
  "run [Call_Register Send, Call_Update 150, Call_Done Send, Sleep 150000000, Timer_expire 0,
        Call_Shutdown, Decay_ctx] test_new =
     Some \<lparr>Histogram = [150], cnt = 0, timer_t = Some 0, decaying = False, ctx_done = True,
         delay = 150000000, timers = [Fired], started = 1, nanotime = 150000000\<rparr> \<and>
   run [Sleep 1000000000, Run_Clear]
     \<lparr>Histogram = [150], cnt = 0, timer_t = Some 0, decaying = False, ctx_done = True,
       delay = 150000000, timers = [Fired], started = 1, nanotime = 150000000\<rparr> =
     Some \<lparr>Histogram = [], cnt = 0, timer_t = Some 0, decaying = False, ctx_done = True,
         delay = 150000000, timers = [Fired], started = 0, nanotime = 1150000000\<rparr>"
proof (rule conjI)
  show "run [Call_Register Send, Call_Update 150, Call_Done Send, Sleep 150000000,
        Timer_expire 0, Call_Shutdown, Decay_ctx] test_new =
     Some \<lparr>Histogram = [150], cnt = 0, timer_t = Some 0, decaying = False, ctx_done = True,
         delay = 150000000, timers = [Fired], started = 1, nanotime = 150000000\<rparr>"
    by (rule run_clear_after_stop)
  show "run [Sleep 1000000000, Run_Clear]
     \<lparr>Histogram = [150], cnt = 0, timer_t = Some 0, decaying = False, ctx_done = True,
       delay = 150000000, timers = [Fired], started = 1, nanotime = 150000000\<rparr> =
     Some \<lparr>Histogram = [], cnt = 0, timer_t = Some 0, decaying = False, ctx_done = True,
         delay = 150000000, timers = [Fired], started = 0, nanotime = 1150000000\<rparr>"
    by (simp add: run_Clear_def Clear_def)
qed

text \<open>
  C4, amended: when \<^verbatim>\<open>decay\<close> takes its cancellation branch after a \<^verbatim>\<open>Shutdown\<close> it stops
  the pending timer and leaves the samples as they are. From then on, however much time
  passes, no timer is pending and none can expire; the only clears that can still run are
  those started by timers that had expired before, at most as many as were outstanding at
  that moment; if none was, the samples present persist and the histogram only grows by
  the callers' own \<^verbatim>\<open>Update\<close> calls. A repeated \<^verbatim>\<open>Shutdown\<close> changes nothing.
\<close>

theorem C4_shutdown_freezes:
  assumes "reachable s"
  shows "(decaying s \<longrightarrow>
            (\<exists>s1. run [Call_Shutdown, Decay_ctx] s = Some s1 \<and> \<not> decaying s1 \<and>
               \<not> armed s1 \<and> Histogram s1 = Histogram s \<and> started s1 = started s)) \<and>
         (\<not> decaying s \<longrightarrow>
            \<not> armed s \<and>
            (\<forall>es s'. run es s = Some s' \<longrightarrow>
               \<not> decaying s' \<and> \<not> armed s' \<and> timers s' = timers s \<and>
               (\<forall>k. Timer_expire k \<notin> set es) \<and> (\<forall>k. timer_expire k s' = None) \<and>
               count_list es Run_Clear \<le> started s \<and>
               (started s = 0 \<longrightarrow> Histogram s' = Histogram s @ updates es) \<and>
               Shutdown s' = s'))"
proof (intro conjI impI allI)
  assume d: "decaying s"
  let ?s1 = "decay_ctx (Shutdown s)"
  have r: "run [Call_Shutdown, Decay_ctx] s = Some ?s1"
    using d by (simp add: Shutdown_def)
  have nd: "\<not> decaying ?s1"
    by (simp add: decay_ctx_frame)
  have "decay_inv ?s1"
    by (rule reachable_decay_inv [OF reachable_run [OF assms r]])
  then have na: "\<not> armed ?s1"
    using nd by (rule stopped_not_armed)
  have "Histogram ?s1 = Histogram s" "started ?s1 = started s"
    by (simp_all add: decay_ctx_frame Shutdown_def)
  with r nd na show "\<exists>s1. run [Call_Shutdown, Decay_ctx] s = Some s1 \<and> \<not> decaying s1 \<and>
      \<not> armed s1 \<and> Histogram s1 = Histogram s \<and> started s1 = started s"
    by blast
next
  assume nd: "\<not> decaying s"
  have inv: "decay_inv s"
    by (rule reachable_decay_inv [OF assms])
  show na: "\<not> armed s"
    by (rule stopped_not_armed [OF inv nd])
  fix es s'
  assume r: "run es s = Some s'"
  note f = stopped_run [OF nd na r]
  show nd': "\<not> decaying s'"
    by (rule run_frame(3) [OF r nd])
  from f na show na': "\<not> armed s'"
    by (simp add: armed_def)
  from f show "timers s' = timers s"
    by blast
  from f show "Timer_expire k \<notin> set es" for k
    by blast
  from na' show "timer_expire k s' = None" for k
    by (rule not_armed_expire)
  from f show "count_list es Run_Clear \<le> started s"
    by linarith
  have "reachable s'"
    by (rule reachable_run [OF assms r])
  from decay_inv_ctxD [OF reachable_decay_inv [OF this] nd'] show "Shutdown s' = s'"
    by (rule Shutdown_idem)
  {
    assume "started s = 0"
    with f have "count_list es Run_Clear = 0" by linarith
    then have "Run_Clear \<notin> set es" by (simp add: count_list_0_iff)
    with f show "Histogram s' = Histogram s @ updates es" by blast
  }
qed

lemma run_test_shutdown:
  "run (test_activity @ [Call_Shutdown, Call_Shutdown, Decay_ctx]) test_new =
   Some \<lparr>Histogram = [150, 100, 50], cnt = 0, timer_t = Some 0, decaying = False,
         ctx_done = True, delay = 150000000, timers = [Stopped], started = 0,
         nanotime = 0\<rparr>"
  by (simp add: run_append run_test_activity) (simp add: Shutdown_def decay_ctx_def Stop_def)

theorem C4_shutdown_freezes_witness:
  "\<not> armed \<lparr>Histogram = [150, 100, 50], cnt = 0, timer_t = Some 0, decaying = False,
         ctx_done = True, delay = 150000000, timers = [Stopped], started = 0,
         nanotime = 200000000\<rparr> \<and>
   timer_expire 0 \<lparr>Histogram = [150, 100, 50], cnt = 0, timer_t = Some 0, decaying = False,
         ctx_done = True, delay = 150000000, timers = [Stopped], started = 0,
         nanotime = 200000000\<rparr> = None \<and>
   Histogram \<lparr>Histogram = [150, 100, 50], cnt = 0, timer_t = Some 0, decaying = False,
         ctx_done = True, delay = 150000000, timers = [Stopped], started = 0,
         nanotime = 200000000\<rparr> = [150, 100, 50] \<and>
   Shutdown \<lparr>Histogram = [150, 100, 50], cnt = 0, timer_t = Some 0, decaying = False,
         ctx_done = True, delay = 150000000, timers = [Stopped], started = 0,
         nanotime = 200000000\<rparr> =
     \<lparr>Histogram = [150, 100, 50], cnt = 0, timer_t = Some 0, decaying = False,
         ctx_done = True, delay = 150000000, timers = [Stopped], started = 0,
         nanotime = 200000000\<rparr>"
proof -
  let ?a = "\<lparr>Histogram = [150, 100, 50], cnt = 0, timer_t = Some 0, decaying = False,
         ctx_done = True, delay = 150000000, timers = [Stopped], started = 0,
         nanotime = 0\<rparr>"
  let ?b = "\<lparr>Histogram = [150, 100, 50], cnt = 0, timer_t = Some 0, decaying = False,
         ctx_done = True, delay = 150000000, timers = [Stopped], started = 0,
         nanotime = 200000000\<rparr>"
  have ra: "reachable ?a"
    by (rule reachable_run [OF _ run_test_shutdown]) (simp add: test_new_def reach_init)
  have nd: "\<not> decaying ?a" and st: "started ?a = 0"
    by simp_all
  have e: "run [Sleep 200000000] ?a = Some ?b"
    by simp
  from C4_shutdown_freezes [OF ra] nd e st
  have "\<not> armed ?b \<and> timer_expire 0 ?b = None \<and>
      Histogram ?b = Histogram ?a @ updates [Sleep 200000000] \<and> Shutdown ?b = ?b"
    by blast
  then show ?thesis
    by simp
qed

subsection \<open>C8: the close operation of the decorator is idempotent\<close>

text \<open>
  C8: in every reachable state of the Registrar some case of the first close is ready, so
  it returns. The first close marks the decorator closed, releases the underlying
  resources once, issues the compensating \<^verbatim>\<open>Done()\<close> if a registration is outstanding and
  returns the endpoint's result. Every later close, whichever case of a \<^verbatim>\<open>select\<close> it
  would take and whatever state the Registrar is in by then, returns no error and changes
  neither the decorator nor the Registrar: no second release, no second \<^verbatim>\<open>Done()\<close>. Its
  result is that of a successful first close.
\<close>

theorem C8_close_idempotent:
  "(reachable s \<longrightarrow> (\<exists>c res. Close c (m, s) = Some res)) \<and>
   (Close c (m, s) = Some ((m1, s1), r1) \<longrightarrow>
      is_closed m1 \<and>
      (\<forall>c' s2. Close c' (m1, s2) = Some ((m1, s2), None)) \<and>
      (is_closed m \<longrightarrow> m1 = m \<and> s1 = s \<and> r1 = None) \<and>
      (\<not> is_closed m \<longrightarrow>
         r1 = endpoint_result m \<and>
         endpoint_closes m1 = Suc (endpoint_closes m) \<and>
         (registration m \<longrightarrow> Done c s = Some s1) \<and>
         (\<not> registration m \<longrightarrow> s1 = s)) \<and>
      (endpoint_result m = None \<longrightarrow> r1 = None))"
proof -
  have 1: "\<exists>c res. Close c (m, s) = Some res" if "reachable s"
  proof -
    from Done_ready [OF that] obtain c s' where "Done c s = Some s'" by blast
    then have "\<exists>res. Close c (m, s) = Some res"
      by (simp add: Close_def)
    then show ?thesis by blast
  qed
  have 2: "is_closed m1" if "Close c (m, s) = Some ((m1, s1), r1)"
    using that by (auto simp: Close_def split: if_splits option.splits)
  have 3: "\<forall>c' s2. Close c' (m1, s2) = Some ((m1, s2), None)"
    if "Close c (m, s) = Some ((m1, s1), r1)"
    using 2 [OF that] by (simp add: Close_def)
  have 4: "m1 = m \<and> s1 = s \<and> r1 = None"
    if "Close c (m, s) = Some ((m1, s1), r1)" and "is_closed m"
    using that by (simp add: Close_def)
  have 5: "r1 = endpoint_result m \<and> endpoint_closes m1 = Suc (endpoint_closes m) \<and>
      (registration m \<longrightarrow> Done c s = Some s1) \<and> (\<not> registration m \<longrightarrow> s1 = s)"
    if "Close c (m, s) = Some ((m1, s1), r1)" and "\<not> is_closed m"
    using that by (auto simp: Close_def split: if_splits option.splits)
  have 6: "r1 = None"
    if "Close c (m, s) = Some ((m1, s1), r1)" and "endpoint_result m = None"
    using that by (auto simp: Close_def split: if_splits option.splits)
  from 1 2 3 4 5 6 show ?thesis by blast
qed

theorem C8_close_idempotent_witness:
  "Close Send (\<lparr>is_closed = False, registration = True, endpoint_result = None,
        endpoint_closes = 0\<rparr>,
      \<lparr>Histogram = [], cnt = 1, timer_t = None, decaying = True, ctx_done = False,
        delay = 150000000, timers = [], started = 0, nanotime = 0\<rparr>) =
     Some ((\<lparr>is_closed = True, registration = False, endpoint_result = None,
              endpoint_closes = 1\<rparr>,
            \<lparr>Histogram = [], cnt = 0, timer_t = Some 0, decaying = True, ctx_done = False,
              delay = 150000000, timers = [Pending 150000000], started = 0, nanotime = 0\<rparr>),
           None) \<and>
   Close Send (\<lparr>is_closed = True, registration = False, endpoint_result = None,
        endpoint_closes = 1\<rparr>,
      \<lparr>Histogram = [], cnt = 0, timer_t = Some 0, decaying = True, ctx_done = False,
        delay = 150000000, timers = [Pending 150000000], started = 0, nanotime = 0\<rparr>) =
     Some ((\<lparr>is_closed = True, registration = False, endpoint_result = None,
              endpoint_closes = 1\<rparr>,
            \<lparr>Histogram = [], cnt = 0, timer_t = Some 0, decaying = True, ctx_done = False,
              delay = 150000000, timers = [Pending 150000000], started = 0, nanotime = 0\<rparr>),
           None)"
proof -
  let ?m = "\<lparr>is_closed = False, registration = True, endpoint_result = None,
        endpoint_closes = 0\<rparr>"
  let ?a = "\<lparr>Histogram = [], cnt = 1, timer_t = None, decaying = True, ctx_done = False,
        delay = 150000000, timers = [], started = 0, nanotime = 0\<rparr>"
  let ?n = "\<lparr>is_closed = True, registration = False, endpoint_result = None,
              endpoint_closes = 1\<rparr>"
  let ?b = "\<lparr>Histogram = [], cnt = 0, timer_t = Some 0, decaying = True, ctx_done = False,
              delay = 150000000, timers = [Pending 150000000], started = 0, nanotime = 0\<rparr>"
  have 1: "Close Send (?m, ?a) = Some ((?n, ?b), None)"
    by (simp add: Close_def eval_defs)
  from C8_close_idempotent [of ?a ?m Send ?n ?b None] 1
  have "Close Send (?n, ?b) = Some ((?n, ?b), None)"
    by blast
  with 1 show ?thesis by blast
qed

end
